theory Spec2Isabelle
  imports Main "HOL-Library.Sublist"
begin

text \<open>
  The bridge between the OpenClaw engine and the chat interface. The engine client
  (\<^verbatim>\<open>engine-client.ts\<close>) submits a goal and decodes the server-sent events of the goal's
  stream into records; the stream bridge (\<^verbatim>\<open>engine-stream-bridge.ts\<close>) translates the
  records into the parts of a message stream, which it writes to a sink.

  The functions below are these two files, function by function. What the platform
  provides is either modelled with the platform's meaning (the string methods, \<^verbatim>\<open>??\<close>,
  \<^verbatim>\<open>?.\<close>, template literals) or taken as a parameter (\<^verbatim>\<open>JSON.parse\<close>, \<^verbatim>\<open>fetch\<close>,
  \<^verbatim>\<open>encodeURIComponent\<close>, \<^verbatim>\<open>JSON.stringify\<close>, the text of a number).
\<close>

section \<open>Platform strings\<close>

text \<open>
  Text is a list of characters, those with the codes 0 to 255. The decoder works on the
  text that the streaming \<^verbatim>\<open>TextDecoder\<close> hands over, read after read; the concatenation
  of the decoded reads is the decoded body, so a read is modelled by the text it adds. The
  functions of this section are the JavaScript string methods that the sources call:
  \<^verbatim>\<open>split\<close>, \<^verbatim>\<open>trim\<close>, \<^verbatim>\<open>startsWith\<close> and \<^verbatim>\<open>slice\<close>.
\<close>

fun consHead :: "char \<Rightarrow> string list \<Rightarrow> string list" where
  "consHead c [] = [[c]]"
| "consHead c (p # ps) = (c # p) # ps"

text \<open>
  \<^verbatim>\<open>s.split(sep)\<close>: the text is cut at every occurrence of the separator, found from the
  left and never overlapping; the result always has at least one piece when the separator
  is not empty.
\<close>

function jsSplit :: "string \<Rightarrow> string \<Rightarrow> string list" where
  "jsSplit sep s =
     (if sep = [] then map (\<lambda>c. [c]) s
      else if s = [] then [[]]
      else if prefix sep s then [] # jsSplit sep (drop (length sep) s)
      else consHead (hd s) (jsSplit sep (tl s)))"
  by pat_completeness auto
termination
  by (relation "measure (\<lambda>(sep, s). length s)") auto

declare jsSplit.simps [simp del]

text \<open>
  The white space that \<^verbatim>\<open>trim\<close> removes, among the characters of the model: tab, line
  feed, vertical tab, form feed, carriage return, space and no-break space.
\<close>

definition isWhiteSpace :: "char \<Rightarrow> bool" where
  "isWhiteSpace c =
     (c = CHR 0x09 \<or> c = CHR 0x0A \<or> c = CHR 0x0B \<or> c = CHR 0x0C \<or> c = CHR 0x0D
      \<or> c = CHR 0x20 \<or> c = CHR 0xA0)"

definition trim :: "string \<Rightarrow> string" where
  "trim s = rev (dropWhile isWhiteSpace (rev (dropWhile isWhiteSpace s)))"

definition startsWith :: "string \<Rightarrow> string \<Rightarrow> bool" where
  "startsWith s p = prefix p s"

definition slice :: "string \<Rightarrow> nat \<Rightarrow> string" where
  "slice s n = drop n s"

text \<open>The decimal text of a status code, as a template literal renders it.\<close>

function showNat :: "nat \<Rightarrow> string" where
  "showNat n =
     (if n < 10 then [''0123456789'' ! n]
      else showNat (n div 10) @ [''0123456789'' ! (n mod 10)])"
  by pat_completeness auto
termination
  by (relation "measure (\<lambda>n. n)") auto

declare showNat.simps [simp del]

section \<open>The engine client\<close>

text \<open>
  A thrown value is an \<^verbatim>\<open>Error\<close> object with its message, or some other value, kept as
  the text that \<^verbatim>\<open>String(err)\<close> gives.
\<close>

datatype jsError = Error string | NonError string

fun errMessage :: "jsError \<Rightarrow> string" where
  "errMessage (Error m) = m"
| "errMessage (NonError s) = s"

text \<open>
  The two environment variables read at module load; \<open>None\<close> is an unset variable.
\<close>

record engineEnv =
  ENGINE_URL :: "string option"
  API_KEY :: "string option"

text \<open>\<^verbatim>\<open>!v\<close> on an optional string: unset and the empty string are both falsy.\<close>

fun falsy :: "string option \<Rightarrow> bool" where
  "falsy None = True"
| "falsy (Some s) = (s = [])"

definition getHeaders :: "engineEnv \<Rightarrow> (string \<times> string) list" where
  "getHeaders env =
     [(''Content-Type'', ''application/json'')]
     @ (if falsy (API_KEY env) then []
        else [(''Authorization'', ''Bearer '' @ the (API_KEY env))])"

text \<open>
  The network is the function \<open>fetch\<close>, from a request to the outcome of the call. Every
  function that may call it returns the list of the requests it made, so that "no network
  activity" is the empty list. The body of a response is the list of the texts its reads
  deliver, and then the end of the body or the failure of a read.
\<close>

record httpRequest =
  reqUrl :: string
  reqMethod :: string
  reqHeaders :: "(string \<times> string) list"
  reqBody :: "string option"

datatype bodyEnd = BodyDone | BodyFails jsError

record goalReply =
  replyGoalId :: string
  replyStatus :: string

record httpResponse =
  resOk :: bool
  resStatus :: nat
  resStatusText :: string
  resText :: "string option"
  resJson :: "jsError + goalReply"
  resBody :: "(string list \<times> bodyEnd) option"

datatype fetchResult = FetchRejected jsError | FetchResponse httpResponse

text \<open>\<^verbatim>\<open>await res.text().catch(() => "")\<close>, then \<^verbatim>\<open>text || res.statusText\<close>.\<close>

definition failureText :: "httpResponse \<Rightarrow> string" where
  "failureText res =
     (let t = (case resText res of None \<Rightarrow> [] | Some t \<Rightarrow> t)
      in if t \<noteq> [] then t else resStatusText res)"

definition submitGoal ::
  "engineEnv \<Rightarrow> (httpRequest \<Rightarrow> fetchResult) \<Rightarrow> (string \<Rightarrow> string) \<Rightarrow> string
   \<Rightarrow> (jsError + string) \<times> httpRequest list" where
  "submitGoal env fetch stringifyMessage message =
     (if falsy (ENGINE_URL env) then (Inl (Error ''OPENCLAW_ENGINE_URL is not configured''), [])
      else
        let req = \<lparr>reqUrl = the (ENGINE_URL env) @ ''/api/engine/chat'',
                   reqMethod = ''POST'',
                   reqHeaders = getHeaders env,
                   reqBody = Some (stringifyMessage message)\<rparr>
        in (case fetch req of
              FetchRejected e \<Rightarrow> (Inl e, [req])
            | FetchResponse res \<Rightarrow>
                if \<not> resOk res then
                  (Inl (Error (''Engine chat failed ('' @ showNat (resStatus res) @ ''): ''
                               @ failureText res)), [req])
                else (case resJson res of
                        Inl e \<Rightarrow> (Inl e, [req])
                      | Inr reply \<Rightarrow> (Inr (replyGoalId reply), [req]))))"

subsection \<open>The frame decoder\<close>

record 'd EngineSSEEvent =
  event :: string
  data :: 'd

text \<open>
  The loop over the lines of one frame: \<open>eventType\<close> and \<open>eventData\<close> are the two
  variables, each assigned again by every line with its prefix.
\<close>

definition frameLine :: "string \<times> string \<Rightarrow> string \<Rightarrow> string \<times> string" where
  "frameLine vars line =
     (if startsWith line ''event: '' then (trim (slice line 7), snd vars)
      else if startsWith line ''data: '' then (fst vars, slice line 6)
      else vars)"

definition frameFields :: "string \<Rightarrow> string \<times> string" where
  "frameFields frame = foldl frameLine (''message'', ''{}'') (jsSplit ''\<newline>'' frame)"

text \<open>
  The loop over the complete frames of one read. \<open>parse\<close> is \<^verbatim>\<open>JSON.parse\<close>, with \<open>None\<close>
  for the \<^verbatim>\<open>SyntaxError\<close> that the surrounding \<^verbatim>\<open>try\<close> swallows. The result is the list of
  the records enqueued, and whether the loop closed the stream at a \<^verbatim>\<open>done\<close> frame.
\<close>

fun processFrames ::
  "(string \<Rightarrow> 'd option) \<Rightarrow> string list \<Rightarrow> 'd EngineSSEEvent list \<times> bool" where
  "processFrames parse [] = ([], False)"
| "processFrames parse (frame # frames) =
     (if trim frame = [] then processFrames parse frames
      else
        let eventType = fst (frameFields frame); eventData = snd (frameFields frame)
        in if eventType = ''heartbeat'' \<or> eventType = ''connected''
           then processFrames parse frames
           else
             let enqueued = (case parse eventData of
                               None \<Rightarrow> []
                             | Some parsed \<Rightarrow> [\<lparr>event = eventType, data = parsed\<rparr>])
             in if eventType = ''done'' then (enqueued, True)
                else (enqueued @ fst (processFrames parse frames),
                      snd (processFrames parse frames)))"

text \<open>
  One read that delivered a text: the buffer grows, is split at the blank lines, and the
  last piece goes back into the buffer. The result is the records enqueued, whether the
  stream was closed, and the new buffer.
\<close>

definition readStep ::
  "(string \<Rightarrow> 'd option) \<Rightarrow> string \<Rightarrow> string
   \<Rightarrow> 'd EngineSSEEvent list \<times> bool \<times> string" where
  "readStep parse buffer chunk =
     (let frames = jsSplit ''\<newline>\<newline>'' (buffer @ chunk)
      in (fst (processFrames parse (butlast frames)),
          snd (processFrames parse (butlast frames)),
          last frames))"

text \<open>
  How the sequence of records ends for its reader: closed (after the records, the reader's
  read reports the end), or errored (the reader's read throws). The decoder's result is
  the list of the records it enqueues, in order, and this end. The reader is taken to have
  read a record by the time a later read of the body fails; the platform drops the
  records still queued when a stream is errored.
\<close>

datatype streamEnd = Closed | Errored jsError

fun decodeLoop ::
  "(string \<Rightarrow> 'd option) \<Rightarrow> string \<Rightarrow> string list \<Rightarrow> bodyEnd
   \<Rightarrow> 'd EngineSSEEvent list \<times> streamEnd" where
  "decodeLoop parse buffer [] BodyDone = ([], Closed)"
| "decodeLoop parse buffer [] (BodyFails err) = ([], Errored err)"
| "decodeLoop parse buffer (chunk # chunks) fin =
     (case readStep parse buffer chunk of
        (records, closed, buffer') \<Rightarrow>
          if closed then (records, Closed)
          else (records @ fst (decodeLoop parse buffer' chunks fin),
                snd (decodeLoop parse buffer' chunks fin)))"

definition decodeBody ::
  "(string \<Rightarrow> 'd option) \<Rightarrow> string list \<times> bodyEnd \<Rightarrow> 'd EngineSSEEvent list \<times> streamEnd" where
  "decodeBody parse body = decodeLoop parse [] (fst body) (snd body)"

text \<open>
  \<open>streamGoalEvents\<close> throws at once when the base URL is missing (\<open>Inl\<close>); otherwise it
  returns the stream, here the sequence of records that the stream's \<^verbatim>\<open>start\<close> produces
  and the way the sequence ends.
\<close>

definition streamGoalEvents ::
  "engineEnv \<Rightarrow> (httpRequest \<Rightarrow> fetchResult) \<Rightarrow> (string \<Rightarrow> string) \<Rightarrow> (string \<Rightarrow> 'd option)
   \<Rightarrow> string \<Rightarrow> (jsError + 'd EngineSSEEvent list \<times> streamEnd) \<times> httpRequest list" where
  "streamGoalEvents env fetch encodeURIComponent parse goalId =
     (if falsy (ENGINE_URL env) then (Inl (Error ''OPENCLAW_ENGINE_URL is not configured''), [])
      else
        let req = \<lparr>reqUrl = the (ENGINE_URL env) @ ''/api/engine/chat/stream?goalId=''
                            @ encodeURIComponent goalId,
                   reqMethod = ''GET'',
                   reqHeaders = getHeaders env @ [(''Accept'', ''text/event-stream'')],
                   reqBody = None\<rparr>
        in (case fetch req of
              FetchRejected e \<Rightarrow>
                (Inr ([], Errored (Error (''Failed to connect to engine stream: ''
                                          @ errMessage e))), [req])
            | FetchResponse res \<Rightarrow>
                if \<not> resOk res then
                  (Inr ([], Errored (Error (''Engine stream failed ('' @ showNat (resStatus res)
                                            @ ''): '' @ failureText res))), [req])
                else (case resBody res of
                        None \<Rightarrow> (Inr ([], Errored (Error ''Engine stream returned no body'')),
                                 [req])
                      | Some body \<Rightarrow> (Inr (decodeBody parse body), [req]))))"

section \<open>The event translator\<close>

subsection \<open>Payloads\<close>

text \<open>
  The data of a record is whatever \<^verbatim>\<open>JSON.parse\<close> returned: the cast to
  \<^verbatim>\<open>Record<string, unknown>\<close> is not checked, so the translator may receive any JSON value,
  \<^verbatim>\<open>null\<close> included. An object is the list of its own properties. Numbers are the elements
  of a type \<open>'n\<close> that the model leaves open; the one thing the translator does with a
  number is to put it into a template literal, and \<open>numText\<close>, a parameter of every
  function below, is that rendering.
\<close>

datatype 'n json =
  JNull
| JBool bool
| JNum 'n
| JStr string
| JArr "'n json list"
| JObj "(string \<times> 'n json) list"

type_synonym 'n payload = "(string \<times> 'n json) list"

text \<open>
  What can leave \<open>createEngineStream\<close> as an exception: the error of the stream, thrown
  again by the read (or the error of the configuration), the \<^verbatim>\<open>TypeError\<close> of reading a
  property of \<^verbatim>\<open>null\<close>, with the name of the property, and the \<^verbatim>\<open>TypeError\<close> of a value that
  cannot be converted to a primitive.
\<close>

datatype exn = Rethrown jsError | TypeErrorNull string | TypeErrorPrimitive

text \<open>
  Reading \<^verbatim>\<open>data.key\<close> throws when \<^verbatim>\<open>data\<close> is \<^verbatim>\<open>null\<close>; \<open>isNull\<close> is that test, made where
  the code first reads a property. On any other value the read is \<open>getProp\<close>: the own
  property of an object, and \<^verbatim>\<open>undefined\<close> (\<open>None\<close>) for a missing property and for the
  values that are not objects, which have no property of the names read here.
  \<^verbatim>\<open>task?.key\<close> reads a property of a value that may be missing: nothing for
  \<^verbatim>\<open>undefined\<close> and \<^verbatim>\<open>null\<close>, and the property otherwise.
\<close>

fun isNull :: "'n json \<Rightarrow> bool" where
  "isNull JNull = True"
| "isNull v = False"

fun getProp :: "'n json \<Rightarrow> string \<Rightarrow> 'n json option" where
  "getProp (JObj props) key = map_of props key"
| "getProp v key = None"

fun optProp :: "'n json option \<Rightarrow> string \<Rightarrow> 'n json option" where
  "optProp (Some v) key = getProp v key"
| "optProp None key = None"

text \<open>
  \<^verbatim>\<open>a ?? b\<close>: the left operand unless it is \<^verbatim>\<open>undefined\<close> or \<^verbatim>\<open>null\<close>. \<open>withDefault\<close> is
  the same with a right operand that is a literal; \<open>present\<close> is the left operand when
  it is kept, for a right operand that is evaluated only when needed.
\<close>

fun coalesce :: "'n json option \<Rightarrow> 'n json option \<Rightarrow> 'n json option" where
  "coalesce None b = b"
| "coalesce (Some JNull) b = b"
| "coalesce (Some v) b = Some v"

fun withDefault :: "'n json option \<Rightarrow> 'n json \<Rightarrow> 'n json" where
  "withDefault None d = d"
| "withDefault (Some JNull) d = d"
| "withDefault (Some v) d = v"

fun present :: "'n json option \<Rightarrow> 'n json option" where
  "present None = None"
| "present (Some JNull) = None"
| "present (Some v) = Some v"

text \<open>
  The text of a value inside a template literal. A string is itself; an array is its
  elements joined by commas, with \<^verbatim>\<open>null\<close> elements empty. An object without a property
  \<^verbatim>\<open>toString\<close> of its own is \<^verbatim>\<open>[object Object]\<close>, by the method it inherits. An object with
  such a property has no text: the property, a JSON value, is not callable, \<^verbatim>\<open>valueOf\<close>
  (its own, not callable, or the inherited one, which returns the object) gives no
  primitive either, and the conversion throws.
\<close>

fun jsToString :: "('n \<Rightarrow> string) \<Rightarrow> 'n json \<Rightarrow> exn + string"
  and jsJoin :: "('n \<Rightarrow> string) \<Rightarrow> 'n json list \<Rightarrow> exn + string" where
  "jsToString numText JNull = Inr ''null''"
| "jsToString numText (JBool b) = Inr (if b then ''true'' else ''false'')"
| "jsToString numText (JNum n) = Inr (numText n)"
| "jsToString numText (JStr s) = Inr s"
| "jsToString numText (JArr xs) = jsJoin numText xs"
| "jsToString numText (JObj props) =
     (case map_of props ''toString'' of
        None \<Rightarrow> Inr ''[object Object]''
      | Some f \<Rightarrow> Inl TypeErrorPrimitive)"
| "jsJoin numText [] = Inr []"
| "jsJoin numText (x # xs) =
     (case (case x of JNull \<Rightarrow> Inr [] | _ \<Rightarrow> jsToString numText x) of
        Inl e \<Rightarrow> Inl e
      | Inr s \<Rightarrow>
          if xs = [] then Inr s
          else (case jsJoin numText xs of
                  Inl e \<Rightarrow> Inl e
                | Inr r \<Rightarrow> Inr (s @ '','' @ r)))"

text \<open>
  \<^verbatim>\<open>if (content)\<close>: the empty string, \<^verbatim>\<open>false\<close>, \<^verbatim>\<open>null\<close> and the numbers zero and NaN
  are falsy; zero and NaN are the numbers that render as \<^verbatim>\<open>0\<close> and \<^verbatim>\<open>NaN\<close>.
\<close>

fun truthy :: "('n \<Rightarrow> string) \<Rightarrow> 'n json \<Rightarrow> bool" where
  "truthy numText JNull = False"
| "truthy numText (JBool b) = b"
| "truthy numText (JNum n) = (numText n \<noteq> ''0'' \<and> numText n \<noteq> ''NaN'')"
| "truthy numText (JStr s) = (s \<noteq> [])"
| "truthy numText (JArr xs) = True"
| "truthy numText (JObj props) = True"

text \<open>
  \<^verbatim>\<open>${(data.key as number) ?? 0}\<close>: the text of the field, or of the number \<^verbatim>\<open>0\<close>, which
  is \<^verbatim>\<open>0\<close>.
\<close>

fun countText :: "('n \<Rightarrow> string) \<Rightarrow> 'n json option \<Rightarrow> exn + string" where
  "countText numText None = Inr ''0''"
| "countText numText (Some JNull) = Inr ''0''"
| "countText numText (Some v) = jsToString numText v"

subsection \<open>Chunks and the translator's state\<close>

text \<open>
  The parts handed to \<^verbatim>\<open>writer.write\<close>, one constructor for each \<^verbatim>\<open>type\<close>. A field that
  the code fills with a payload value as it is (the reasoning delta, the error text) is a
  JSON value; a field filled by a template literal is a text.
\<close>

datatype 'n chunk =
  TextStart nat
| TextDelta nat string
| TextEnd nat
| ReasoningStart nat
| ReasoningDelta nat "'n json"
| ReasoningEnd nat
| DataAppendMessage string
| Finish string
| ErrorChunk "'n json"

text \<open>
  What one run of \<open>createEngineStream\<close> changes: the variable \<open>activeTextId\<close>, the
  identifier supply, and the sink, kept as the list of the parts written so far. The sink
  takes every part: \<^verbatim>\<open>writer.write\<close> is an interface without a body in the sources, and
  the model gives it no failure.
\<close>

record 'n translator =
  activeTextId :: "nat option"
  nextId :: nat
  written :: "'n chunk list"

definition writeChunk :: "'n chunk \<Rightarrow> 'n translator \<Rightarrow> 'n translator" where
  "writeChunk part st = st\<lparr>written := written st @ [part]\<rparr>"

text \<open>
  Modelled from the spec: \<open>generateUUID\<close> is imported from \<^verbatim>\<open>../utils\<close>, which is not
  among the sources; the spec has it return fresh unique identifiers. Here the k-th
  identifier generated is the number k, so an identifier is never generated twice, and the
  test \<^verbatim>\<open>!activeTextId\<close> is the test for \<open>None\<close>, as no identifier is the empty string.
\<close>

definition generateUUID :: "'n translator \<Rightarrow> nat \<times> 'n translator" where
  "generateUUID st = (nextId st, st\<lparr>nextId := Suc (nextId st)\<rparr>)"

definition ensureTextStarted :: "'n translator \<Rightarrow> nat \<times> 'n translator" where
  "ensureTextStarted st =
     (case activeTextId st of
        None \<Rightarrow>
          let uid = fst (generateUUID st); st1 = snd (generateUUID st)
          in (uid, writeChunk (TextStart uid) (st1\<lparr>activeTextId := Some uid\<rparr>))
      | Some uid \<Rightarrow> (uid, st))"

definition finishText :: "'n translator \<Rightarrow> 'n translator" where
  "finishText st =
     (case activeTextId st of
        Some uid \<Rightarrow> (writeChunk (TextEnd uid) st)\<lparr>activeTextId := None\<rparr>
      | None \<Rightarrow> st)"

subsection \<open>The dispatch on the event name\<close>

text \<open>
  The result of \<open>handleEvent\<close> is the exception it throws, if any, and the state it
  leaves: what was written before a throw stays written. In every case the statements
  are in the order of the code; the test \<open>isNull\<close> stands at the first read of a property
  of the data, and a template literal is evaluated where the code evaluates it, before the
  call of \<^verbatim>\<open>writer.write\<close> that takes it.
\<close>

definition handleEvent ::
  "('n \<Rightarrow> string) \<Rightarrow> 'n json EngineSSEEvent \<Rightarrow> 'n translator
   \<Rightarrow> exn option \<times> 'n translator" where
  "handleEvent numText ev st =
     (let type = event ev; d = data ev in
      if type = ''agent:thinking'' then
        let st1 = finishText st;
            uid = fst (generateUUID st1); st2 = snd (generateUUID st1)
        in if isNull d then (Some (TypeErrorNull ''agentId''), st2)
           else
             let agentId = withDefault (getProp d ''agentId'') (JStr ''agent'');
                 content =
                   (case present (coalesce (getProp d ''text'') (getProp d ''content'')) of
                      Some v \<Rightarrow> Inr v
                    | None \<Rightarrow>
                        (case jsToString numText agentId of
                           Inl e \<Rightarrow> Inl e
                         | Inr s \<Rightarrow> Inr (JStr (s @ '' is thinking...''))))
             in (case content of
                   Inl e \<Rightarrow> (Some e, st2)
                 | Inr c \<Rightarrow>
                     (None,
                      writeChunk (ReasoningEnd uid)
                        (writeChunk (ReasoningDelta uid c)
                           (writeChunk (ReasoningStart uid) st2))))
      else if type = ''agent:response'' then
        if isNull d then (Some (TypeErrorNull ''output''), st)
        else
          let content = withDefault
                          (coalesce (coalesce (getProp d ''output'') (getProp d ''text''))
                             (getProp d ''content''))
                          (JStr [])
          in if truthy numText content then
               let uid = fst (ensureTextStarted st); st1 = snd (ensureTextStarted st)
               in (case jsToString numText content of
                     Inl e \<Rightarrow> (Some e, st1)
                   | Inr s \<Rightarrow> (None, writeChunk (TextDelta uid (s @ ''\<newline>\<newline>'')) st1))
             else (None, st)
      else if type = ''task:created'' then
        if isNull d then (Some (TypeErrorNull ''task''), st)
        else
          let task = getProp d ''task'';
              title = withDefault
                        (coalesce (coalesce (optProp task ''title'') (getProp d ''description''))
                           (optProp task ''id''))
                        (JStr [])
          in (case jsToString numText title of
                Inl e \<Rightarrow> (Some e, st)
              | Inr s \<Rightarrow> (None, writeChunk (DataAppendMessage (''Task created: '' @ s)) st))
      else if type = ''task:started'' then
        if isNull d then (Some (TypeErrorNull ''agentId''), st)
        else
          let taskId = withDefault (getProp d ''taskId'') (JStr [])
          in (case jsToString numText taskId of
                Inl e \<Rightarrow> (Some e, st)
              | Inr s \<Rightarrow>
                  (None,
                   writeChunk (DataAppendMessage (''Task '' @ s @ '' assigned to agent'')) st))
      else if type = ''task:completed'' then
        if isNull d then (Some (TypeErrorNull ''task''), st)
        else
          let task = getProp d ''task'';
              title = withDefault (coalesce (optProp task ''title'') (optProp task ''id''))
                        (JStr [])
          in (case jsToString numText title of
                Inl e \<Rightarrow> (Some e, st)
              | Inr s \<Rightarrow> (None, writeChunk (DataAppendMessage (''Task completed: '' @ s)) st))
      else if type = ''task:failed'' then
        if isNull d then (Some (TypeErrorNull ''error''), st)
        else
          let error = withDefault (getProp d ''error'') (JStr ''unknown error'')
          in (case jsToString numText error of
                Inl e \<Rightarrow> (Some e, st)
              | Inr s \<Rightarrow> (None, writeChunk (DataAppendMessage (''Task failed: '' @ s)) st))
      else if type = ''goal:completed'' then
        if isNull d then (Some (TypeErrorNull ''tasks''), st)
        else
          let uid = fst (ensureTextStarted st); st1 = snd (ensureTextStarted st)
          in (case countText numText (getProp d ''completed'') of
                Inl e \<Rightarrow> (Some e, st1)
              | Inr completed \<Rightarrow>
                  (case countText numText (getProp d ''tasks'') of
                     Inl e \<Rightarrow> (Some e, st1)
                   | Inr tasks \<Rightarrow>
                       (case countText numText (getProp d ''failed'') of
                          Inl e \<Rightarrow> (Some e, st1)
                        | Inr failed \<Rightarrow>
                            let st2 = writeChunk
                                  (TextDelta uid
                                     (''\<newline>\<newline>---\<newline>Goal completed ('' @ completed @ ''/'' @ tasks
                                      @ '' tasks, '' @ failed @ '' failed)\<newline>''))
                                  st1
                            in (None, writeChunk (Finish ''stop'') (finishText st2)))))
      else if type = ''agent:error'' \<or> type = ''loop:error'' then
        let st1 = finishText st
        in if isNull d then (Some (TypeErrorNull ''error''), st1)
           else
             let errorText = withDefault (coalesce (getProp d ''error'') (getProp d ''message''))
                               (JStr ''Engine error'')
             in (None, writeChunk (ErrorChunk errorText) st1)
      else if type = ''loop:started'' \<or> type = ''loop:tick'' \<or> type = ''loop:stopped''
              \<or> type = ''task:assigned'' \<or> type = ''goal:created'' then (None, st)
      else (None, st))"

subsection \<open>The driving loop\<close>

text \<open>
  The loop of \<open>createEngineStream\<close> over the records that the reader yields: it goes on
  to the next record when \<open>handleEvent\<close> returns, and stops at the first record on which
  \<open>handleEvent\<close> throws, with that exception.
\<close>

fun translateEvents ::
  "('n \<Rightarrow> string) \<Rightarrow> 'n json EngineSSEEvent list \<Rightarrow> 'n translator
   \<Rightarrow> exn option \<times> 'n translator" where
  "translateEvents numText [] st = (None, st)"
| "translateEvents numText (ev # evs) st =
     (case handleEvent numText ev st of
        (None, st1) \<Rightarrow> translateEvents numText evs st1
      | (Some e, st1) \<Rightarrow> (Some e, st1))"

text \<open>
  The \<^verbatim>\<open>try\<close> block is left in one of three ways: by an exception of \<open>handleEvent\<close>; by
  the read that reports the end, when the stream is closed; by the read that throws the
  error of the stream, when it is errored. The \<^verbatim>\<open>finally\<close> block then runs \<open>finishText\<close>,
  and the exception, if any, goes on to the caller (\<open>Inl\<close>).
\<close>

definition driveStream ::
  "('n \<Rightarrow> string) \<Rightarrow> 'n json EngineSSEEvent list \<times> streamEnd \<Rightarrow> 'n translator
   \<Rightarrow> (exn + unit) \<times> 'n translator" where
  "driveStream numText stream st =
     (case translateEvents numText (fst stream) st of
        (Some e, st1) \<Rightarrow> (Inl e, finishText st1)
      | (None, st1) \<Rightarrow>
          (case snd stream of
             Closed \<Rightarrow> (Inr (), finishText st1)
           | Errored err \<Rightarrow> (Inl (Rethrown err), finishText st1)))"

text \<open>
  \<open>createEngineStream\<close>, from the parts already in the sink and the state of the
  identifier supply. The call of \<open>streamGoalEvents\<close> is outside the \<^verbatim>\<open>try\<close> block: when
  it throws, nothing has been written.
\<close>

definition createEngineStream ::
  "engineEnv \<Rightarrow> (httpRequest \<Rightarrow> fetchResult) \<Rightarrow> (string \<Rightarrow> string)
   \<Rightarrow> (string \<Rightarrow> 'n json option) \<Rightarrow> ('n \<Rightarrow> string) \<Rightarrow> string \<Rightarrow> 'n chunk list \<Rightarrow> nat
   \<Rightarrow> (exn + unit) \<times> 'n translator" where
  "createEngineStream env fetch encodeURIComponent parse numText goalId sink uuid =
     (let st = \<lparr>activeTextId = None, nextId = uuid, written = sink\<rparr>
      in (case fst (streamGoalEvents env fetch encodeURIComponent parse goalId) of
            Inl err \<Rightarrow> (Inl (Rethrown err), st)
          | Inr stream \<Rightarrow> driveStream numText stream st))"


section \<open>Notions used to state the properties\<close>

subsection \<open>Frames on the wire\<close>

text \<open>
  The end of the body as the reader of the records sees it; the complete frames of a text,
  which are all the pieces of the split but the last; the name and the raw data of a frame;
  a list of frames as it travels, each followed by the blank line; and a text that is
  exactly one frame: followed by the separator, it splits into itself and an empty rest.
\<close>

fun endStatus :: "bodyEnd \<Rightarrow> streamEnd" where
  "endStatus BodyDone = Closed"
| "endStatus (BodyFails err) = Errored err"

definition completeFrames :: "string \<Rightarrow> string list" where
  "completeFrames text = butlast (jsSplit ''\<newline>\<newline>'' text)"

definition frameName :: "string \<Rightarrow> string" where
  "frameName frame = fst (frameFields frame)"

definition frameData :: "string \<Rightarrow> string" where
  "frameData frame = snd (frameFields frame)"

definition wire :: "string list \<Rightarrow> string" where
  "wire frames = concat (map (\<lambda>f. f @ ''\<newline>\<newline>'') frames)"

definition oneFrame :: "string \<Rightarrow> bool" where
  "oneFrame frame = (jsSplit ''\<newline>\<newline>'' (frame @ ''\<newline>\<newline>'') = [frame, []])"

text \<open>
  The record of a frame whose data parses, and the frames that carry data: one frame, not
  blank, not one of the three control names, with data that parses.
\<close>

definition frameRecord :: "(string \<Rightarrow> 'd option) \<Rightarrow> string \<Rightarrow> 'd EngineSSEEvent" where
  "frameRecord parse frame = \<lparr>event = frameName frame, data = the (parse (frameData frame))\<rparr>"

definition dataFrame :: "(string \<Rightarrow> 'd option) \<Rightarrow> string \<Rightarrow> bool" where
  "dataFrame parse frame =
     (oneFrame frame \<and> trim frame \<noteq> []
      \<and> frameName frame \<noteq> ''heartbeat'' \<and> frameName frame \<noteq> ''connected''
      \<and> frameName frame \<noteq> ''done'' \<and> parse (frameData frame) \<noteq> None)"

text \<open>The last line with a given prefix, among lines and among the lines of a frame.\<close>

definition lastWith :: "string \<Rightarrow> string list \<Rightarrow> string option" where
  "lastWith pre ls =
     (let ms = filter (\<lambda>line. startsWith line pre) ls
      in if ms = [] then None else Some (last ms))"

definition lastLineWith :: "string \<Rightarrow> string \<Rightarrow> string option" where
  "lastLineWith pre frame =
     (let ls = filter (\<lambda>line. startsWith line pre) (jsSplit ''\<newline>'' frame)
      in if ls = [] then None else Some (last ls))"

subsection \<open>Text spans in the written parts\<close>

text \<open>
  \<open>textSpans\<close> runs through a list of parts with the identifier of the open text span,
  if any: a \<open>TextStart\<close> is accepted only when no span is open, a \<open>TextEnd\<close> only when it
  names the open span. The result is \<open>None\<close> when a part was refused, and the span left
  open otherwise. \<open>textStarts\<close> and \<open>textEnds\<close> are the identifiers opened and closed,
  in order.
\<close>

fun textSpans :: "nat option \<Rightarrow> 'n chunk list \<Rightarrow> nat option option" where
  "textSpans active [] = Some active"
| "textSpans active (TextStart x # parts) =
     (if active = None then textSpans (Some x) parts else None)"
| "textSpans active (TextEnd x # parts) =
     (if active = Some x then textSpans None parts else None)"
| "textSpans active (part # parts) = textSpans active parts"

fun textStarts :: "'n chunk list \<Rightarrow> nat list" where
  "textStarts [] = []"
| "textStarts (TextStart x # parts) = x # textStarts parts"
| "textStarts (part # parts) = textStarts parts"

fun textEnds :: "'n chunk list \<Rightarrow> nat list" where
  "textEnds [] = []"
| "textEnds (TextEnd x # parts) = x # textEnds parts"
| "textEnds (part # parts) = textEnds parts"

text \<open>
  The parts written on top of a given sink. A list of parts is well bracketed when it
  opens and closes its text spans one after the other, leaves none open, not even
  in a prefix two at once, and never opens an identifier twice.
\<close>

definition emitted :: "'n chunk list \<Rightarrow> 'n translator \<Rightarrow> 'n chunk list" where
  "emitted sink st = drop (length sink) (written st)"

definition wellBracketed :: "'n chunk list \<Rightarrow> bool" where
  "wellBracketed parts =
     (textSpans None parts = Some None
      \<and> list_all (\<lambda>k. textSpans None (take k parts) \<noteq> None) [0..<Suc (length parts)]
      \<and> textEnds parts = textStarts parts
      \<and> distinct (textStarts parts))"

text \<open>
  \<open>extends st st'\<close>: the state \<open>st'\<close> comes from \<open>st\<close> by writing more parts, which keep
  the bracketing from the span open in \<open>st\<close> to the span open in \<open>st'\<close>, by opening
  only identifiers generated in between.
\<close>

definition extends :: "'n translator \<Rightarrow> 'n translator \<Rightarrow> bool" where
  "extends st st' =
     (take (length (written st)) (written st') = written st
      \<and> textSpans (activeTextId st) (emitted (written st) st') = Some (activeTextId st')
      \<and> nextId st \<le> nextId st'
      \<and> list_all (\<lambda>x. nextId st \<le> x \<and> x < nextId st') (textStarts (emitted (written st) st'))
      \<and> distinct (textStarts (emitted (written st) st')))"

fun isTextBracket :: "'n chunk \<Rightarrow> bool" where
  "isTextBracket (TextStart x) = True"
| "isTextBracket (TextEnd x) = True"
| "isTextBracket part = False"

fun isFinish :: "'n chunk \<Rightarrow> bool" where
  "isFinish (Finish reason) = True"
| "isFinish part = False"

text \<open>
  The first field that is present, where present means neither missing nor \<^verbatim>\<open>null\<close>; the
  content of a response as the first present of \<^verbatim>\<open>output\<close>, \<^verbatim>\<open>text\<close> and \<^verbatim>\<open>content\<close>; and
  the responses whose content is a string that is not empty.
\<close>

fun firstPresent :: "'n json option list \<Rightarrow> 'n json option" where
  "firstPresent [] = None"
| "firstPresent (None # vs) = firstPresent vs"
| "firstPresent (Some JNull # vs) = firstPresent vs"
| "firstPresent (Some v # vs) = Some v"

definition responseContent :: "'n json EngineSSEEvent \<Rightarrow> 'n json option" where
  "responseContent ev =
     firstPresent [getProp (data ev) ''output'', getProp (data ev) ''text'',
                   getProp (data ev) ''content'']"

fun textOf :: "'n json option \<Rightarrow> string" where
  "textOf (Some (JStr s)) = s"
| "textOf v = []"

definition textResponse :: "'n json EngineSSEEvent \<Rightarrow> bool" where
  "textResponse ev =
     (event ev = ''agent:response''
      \<and> responseContent ev = Some (JStr (textOf (responseContent ev)))
      \<and> textOf (responseContent ev) \<noteq> [])"

text \<open>
  The identifier that \<open>ensureTextStarted\<close> returns in a state, the part it writes for
  that, and the part that \<open>finishText\<close> writes.
\<close>

definition openId :: "'n translator \<Rightarrow> nat" where
  "openId st = (case activeTextId st of None \<Rightarrow> nextId st | Some x \<Rightarrow> x)"

definition spanOpening :: "'n translator \<Rightarrow> 'n chunk list" where
  "spanOpening st = (case activeTextId st of None \<Rightarrow> [TextStart (nextId st)] | Some x \<Rightarrow> [])"

definition spanClosing :: "'n translator \<Rightarrow> 'n chunk list" where
  "spanClosing st = (case activeTextId st of None \<Rightarrow> [] | Some x \<Rightarrow> [TextEnd x])"

definition delta :: "nat \<Rightarrow> 'n json EngineSSEEvent \<Rightarrow> 'n chunk" where
  "delta tid ev = TextDelta tid (textOf (responseContent ev) @ ''\<newline>\<newline>'')"

text \<open>
  A JSON value is printable when it is not an object with a property \<^verbatim>\<open>toString\<close> of its
  own, nor an array that holds, at any depth, a value that is not printable. \<open>plainText\<close>
  is the text of a printable value, written down without the failure. A count field is
  countable when it is missing or printable, and the count shown for a field is \<^verbatim>\<open>0\<close> when
  the field is missing or \<^verbatim>\<open>null\<close>, and the text of the field otherwise.
\<close>

fun printable :: "'n json \<Rightarrow> bool"
  and printableAll :: "'n json list \<Rightarrow> bool" where
  "printable (JArr xs) = printableAll xs"
| "printable (JObj props) = (case map_of props ''toString'' of None \<Rightarrow> True | Some f \<Rightarrow> False)"
| "printable v = True"
| "printableAll [] = True"
| "printableAll (x # xs) = (printable x \<and> printableAll xs)"

fun plainText :: "('n \<Rightarrow> string) \<Rightarrow> 'n json \<Rightarrow> string"
  and plainJoin :: "('n \<Rightarrow> string) \<Rightarrow> 'n json list \<Rightarrow> string" where
  "plainText numText JNull = ''null''"
| "plainText numText (JBool b) = (if b then ''true'' else ''false'')"
| "plainText numText (JNum n) = numText n"
| "plainText numText (JStr s) = s"
| "plainText numText (JArr xs) = plainJoin numText xs"
| "plainText numText (JObj props) = ''[object Object]''"
| "plainJoin numText [] = []"
| "plainJoin numText [x] = (case x of JNull \<Rightarrow> [] | _ \<Rightarrow> plainText numText x)"
| "plainJoin numText (x # y # ys) =
     (case x of JNull \<Rightarrow> [] | _ \<Rightarrow> plainText numText x) @ '','' @ plainJoin numText (y # ys)"

definition countable :: "'n json option \<Rightarrow> bool" where
  "countable field = (case field of None \<Rightarrow> True | Some v \<Rightarrow> printable v)"

definition fieldCount :: "('n \<Rightarrow> string) \<Rightarrow> 'n json \<Rightarrow> string \<Rightarrow> string" where
  "fieldCount numText d key =
     (case firstPresent [getProp d key] of None \<Rightarrow> ''0'' | Some v \<Rightarrow> plainText numText v)"

subsection \<open>A platform for the examples\<close>

text \<open>
  The examples take whole numbers for the numbers, with their decimal text, and for
  \<^verbatim>\<open>JSON.parse\<close> its restriction to the JSON texts they contain. For the decoder alone,
  whose records may carry any data, \<open>objectParse\<close> gives the properties of the object:
  \<^verbatim>\<open>{}\<close> is the empty object. For the decoder followed by the translator, \<open>valueParse\<close>
  gives the JSON value: \<^verbatim>\<open>{}\<close> is the empty object and \<^verbatim>\<open>null\<close> is \<^verbatim>\<open>null\<close>. The other data
  texts of the examples, \<^verbatim>\<open>nope\<close> and \<^verbatim>\<open>{not json}\<close>, are not JSON.
\<close>

definition showInt :: "int \<Rightarrow> string" where
  "showInt i = (if i < 0 then ''-'' @ showNat (nat (- i)) else showNat (nat i))"

definition objectParse :: "string \<Rightarrow> int payload option" where
  "objectParse s = (if s = ''{}'' then Some [] else None)"

definition valueParse :: "string \<Rightarrow> int json option" where
  "valueParse s =
     (if s = ''{}'' then Some (JObj []) else if s = ''null'' then Some JNull else None)"

definition sampleEvents :: "int json EngineSSEEvent list" where
  "sampleEvents =
     [\<lparr>event = ''agent:response'', data = JObj [(''output'', JStr ''Hello'')]\<rparr>,
      \<lparr>event = ''agent:thinking'', data = JObj []\<rparr>,
      \<lparr>event = ''goal:completed'', data = JObj [(''tasks'', JObj [(''toString'', JNum 1)])]\<rparr>,
      \<lparr>event = ''agent:response'', data = JObj [(''output'', JStr ''Bye'')]\<rparr>]"

definition sampleResponses :: "int json EngineSSEEvent list" where
  "sampleResponses =
     [\<lparr>event = ''agent:response'', data = JObj [(''output'', JStr ''Hello'')]\<rparr>,
      \<lparr>event = ''agent:response'',
         data = JObj [(''output'', JNull), (''text'', JStr ''Bye'')]\<rparr>]"

section \<open>Splitting\<close>

lemma jsSplit_nonempty: "sep \<noteq> [] \<Longrightarrow> jsSplit sep s \<noteq> []"
  by (induction sep s rule: jsSplit.induct) (subst jsSplit.simps, auto elim: consHead.elims)

lemma jsSplit_short: "length s < length sep \<Longrightarrow> jsSplit sep s = [s]"
proof (induction s)
  case Nil
  then show ?case by (subst jsSplit.simps) auto
next
  case (Cons c s)
  then have "\<not> prefix sep (c # s)" by (auto dest: prefix_length_le)
  with Cons show ?case by (subst jsSplit.simps) auto
qed

lemma jsSplit_single: "sep \<noteq> [] \<Longrightarrow> jsSplit sep s = [p] \<Longrightarrow> p = s"
proof (induction sep s arbitrary: p rule: jsSplit.induct)
  case (1 sep s)
  show ?case
  proof (cases "s = []")
    case True
    with 1 show ?thesis by (simp add: jsSplit.simps)
  next
    case False
    note ne = this
    show ?thesis
    proof (cases "prefix sep s")
      case True
      with 1(3,4) ne have "[] # jsSplit sep (drop (length sep) s) = [p]"
        by (subst (asm) jsSplit.simps) simp
      with jsSplit_nonempty[OF 1(3)] show ?thesis by simp
    next
      case False
      with 1(3,4) ne have eq: "consHead (hd s) (jsSplit sep (tl s)) = [p]"
        by (subst (asm) jsSplit.simps) simp
      then obtain q where q: "jsSplit sep (tl s) = [q]" "p = hd s # q"
        using jsSplit_nonempty[OF 1(3), of "tl s"]
        by (cases "jsSplit sep (tl s)") auto
      from 1(2)[OF 1(3) ne False 1(3) q(1)] have "q = tl s" .
      with q ne show ?thesis by simp
    qed
  qed
qed

lemma butlast_consHead:
  "length ps \<ge> 2 \<Longrightarrow> butlast (consHead c ps) = consHead c (butlast ps)"
  by (cases ps) (auto split: if_splits)

lemma last_consHead:
  "length ps \<ge> 2 \<Longrightarrow> last (consHead c ps) = last ps"
  by (cases ps) (auto split: if_splits)

lemma consHead_append: "ps \<noteq> [] \<Longrightarrow> consHead c (ps @ qs) = consHead c ps @ qs"
  by (cases ps) auto

lemma jsSplit_append:
  "sep \<noteq> [] \<Longrightarrow>
   jsSplit sep (s @ t) = butlast (jsSplit sep s) @ jsSplit sep (last (jsSplit sep s) @ t)"
proof (induction sep s rule: jsSplit.induct)
  case (1 sep s)
  note sep = 1(3)
  show ?case
  proof (cases "s = []")
    case True
    with sep show ?thesis by (simp add: jsSplit.simps[of sep "[]"])
  next
    case False
    note ne = this
    show ?thesis
    proof (cases "prefix sep s")
      case True
      then obtain s' where s': "s = sep @ s'" by (auto simp: prefix_def)
      have a: "jsSplit sep s = [] # jsSplit sep s'"
        using sep ne True s' by (subst jsSplit.simps) simp
      have b: "jsSplit sep (s @ t) = [] # jsSplit sep (s' @ t)"
        using sep ne s' by (subst jsSplit.simps) simp
      have ih: "jsSplit sep (s' @ t)
                = butlast (jsSplit sep s') @ jsSplit sep (last (jsSplit sep s') @ t)"
        using 1(1)[OF sep ne True sep] s' by simp
      show ?thesis using a b ih jsSplit_nonempty[OF sep, of s'] by simp
    next
      case False
      note npre = this
      obtain c s' where cs: "s = c # s'" using ne by (cases s) auto
      have a: "jsSplit sep s = consHead c (jsSplit sep s')"
        using sep ne npre cs by (subst jsSplit.simps) simp
      show ?thesis
      proof (cases "length (jsSplit sep s') \<ge> 2")
        case True
        have len: "length sep \<le> length s'"
        proof (rule ccontr)
          assume "\<not> length sep \<le> length s'"
          then have "jsSplit sep s' = [s']" by (intro jsSplit_short) simp
          with True show False by simp
        qed
        have "\<not> prefix sep (s @ t)"
        proof
          assume "prefix sep (s @ t)"
          with npre obtain us where "sep = s @ us" by (auto simp: prefix_append)
          with len cs show False by simp
        qed
        then have b: "jsSplit sep (s @ t) = consHead c (jsSplit sep (s' @ t))"
          using sep cs by (subst jsSplit.simps) simp
        have ih: "jsSplit sep (s' @ t)
                  = butlast (jsSplit sep s') @ jsSplit sep (last (jsSplit sep s') @ t)"
          using 1(2)[OF sep ne npre sep] cs by simp
        have bl: "butlast (jsSplit sep s') \<noteq> []" using True
          by (cases "jsSplit sep s'") (auto split: if_splits)
        show ?thesis
          using a b ih True bl
          by (simp add: butlast_consHead last_consHead consHead_append)
      next
        case False
        then obtain p where "jsSplit sep s' = [p]"
          using jsSplit_nonempty[OF sep, of s']
          by (cases "jsSplit sep s'") (auto simp: Suc_le_eq)
        moreover from this have "p = s'" using jsSplit_single[OF sep] by blast
        ultimately show ?thesis using a cs by simp
      qed
    qed
  qed
qed

lemma jsSplit_last_idem:
  "sep \<noteq> [] \<Longrightarrow> jsSplit sep (last (jsSplit sep s)) = [last (jsSplit sep s)]"
proof (induction sep s rule: jsSplit.induct)
  case (1 sep s)
  note sep = 1(3)
  show ?case
  proof (cases "s = []")
    case True
    with sep show ?thesis by (simp add: jsSplit.simps[of sep "[]"])
  next
    case False
    note ne = this
    show ?thesis
    proof (cases "prefix sep s")
      case True
      have a: "jsSplit sep s = [] # jsSplit sep (drop (length sep) s)"
        using sep ne True by (subst jsSplit.simps) simp
      show ?thesis using a 1(1)[OF sep ne True sep] jsSplit_nonempty[OF sep] by simp
    next
      case False
      have a: "jsSplit sep s = consHead (hd s) (jsSplit sep (tl s))"
        using sep ne False by (subst jsSplit.simps) simp
      show ?thesis
      proof (cases "length (jsSplit sep (tl s)) \<ge> 2")
        case True
        then show ?thesis using a 1(2)[OF sep ne False sep] by (simp add: last_consHead)
      next
        case F: False
        then obtain p where p: "jsSplit sep (tl s) = [p]"
          using jsSplit_nonempty[OF sep, of "tl s"]
          by (cases "jsSplit sep (tl s)") (auto simp: Suc_le_eq)
        then have "p = tl s" using jsSplit_single[OF sep] by blast
        with p a ne have "jsSplit sep s = [s]" by simp
        then show ?thesis by simp
      qed
    qed
  qed
qed

lemma jsSplit_join:
  "sep \<noteq> [] \<Longrightarrow>
   concat (map (\<lambda>f. f @ sep) (butlast (jsSplit sep s))) @ last (jsSplit sep s) = s"
proof (induction sep s rule: jsSplit.induct)
  case (1 sep s)
  note sep = 1(3)
  show ?case
  proof (cases "s = []")
    case True
    with sep show ?thesis by (simp add: jsSplit.simps[of sep "[]"])
  next
    case False
    note ne = this
    show ?thesis
    proof (cases "prefix sep s")
      case True
      then obtain s' where s': "s = sep @ s'" by (auto simp: prefix_def)
      have a: "jsSplit sep s = [] # jsSplit sep s'"
        using sep ne True s' by (subst jsSplit.simps) simp
      show ?thesis using a 1(1)[OF sep ne True sep] s' jsSplit_nonempty[OF sep, of s'] by simp
    next
      case False
      have a: "jsSplit sep s = consHead (hd s) (jsSplit sep (tl s))"
        using sep ne False by (subst jsSplit.simps) simp
      obtain p ps where pp: "jsSplit sep (tl s) = p # ps"
        using jsSplit_nonempty[OF sep, of "tl s"] by (cases "jsSplit sep (tl s)") auto
      show ?thesis using a pp 1(2)[OF sep ne False sep] ne
        by (cases ps) (auto simp: hd_Cons_tl)
    qed
  qed
qed

section \<open>The decoder reads frames, however the body is cut\<close>

lemma processFrames_append:
  "processFrames parse (xs @ ys) =
     (if snd (processFrames parse xs) then processFrames parse xs
      else (fst (processFrames parse xs) @ fst (processFrames parse ys),
            snd (processFrames parse ys)))"
  by (induction xs) (auto simp: Let_def)

lemma decodeLoop_frames:
  assumes "jsSplit ''\<newline>\<newline>'' buffer = [buffer]"
  shows "decodeLoop parse buffer chunks fin =
           (fst (processFrames parse (completeFrames (buffer @ concat chunks))),
            if snd (processFrames parse (completeFrames (buffer @ concat chunks)))
            then Closed else endStatus fin)"
  using assms
proof (induction chunks arbitrary: buffer)
  case Nil
  then show ?case by (cases fin) (simp_all add: completeFrames_def)
next
  case (Cons chunk chunks)
  let ?sep = "''\<newline>\<newline>''"
  let ?frames = "jsSplit ?sep (buffer @ chunk)"
  have sep: "?sep \<noteq> []" by simp
  have idem: "jsSplit ?sep (last ?frames) = [last ?frames]"
    by (rule jsSplit_last_idem[OF sep])
  have ih: "decodeLoop parse (last ?frames) chunks fin =
           (fst (processFrames parse (completeFrames (last ?frames @ concat chunks))),
            if snd (processFrames parse (completeFrames (last ?frames @ concat chunks)))
            then Closed else endStatus fin)"
    by (rule Cons.IH[OF idem])
  have "jsSplit ?sep ((buffer @ chunk) @ concat chunks)
        = butlast ?frames @ jsSplit ?sep (last ?frames @ concat chunks)"
    by (rule jsSplit_append[OF sep])
  then have cf: "completeFrames (buffer @ concat (chunk # chunks))
        = butlast ?frames @ completeFrames (last ?frames @ concat chunks)"
    using jsSplit_nonempty[OF sep, of "last ?frames @ concat chunks"]
    by (simp add: completeFrames_def butlast_append)
  show ?case
    unfolding cf processFrames_append
    by (simp add: readStep_def ih Let_def)
qed

lemma jsSplit_Nil: "sep \<noteq> [] \<Longrightarrow> jsSplit sep [] = [[]]"
  by (simp add: jsSplit.simps)

lemma decodeBody_frames:
  "decodeBody parse (chunks, fin) =
     (fst (processFrames parse (completeFrames (concat chunks))),
      if snd (processFrames parse (completeFrames (concat chunks)))
      then Closed else endStatus fin)"
  using decodeLoop_frames[of "[]" parse chunks fin]
  by (simp add: decodeBody_def jsSplit_Nil)

lemma processFrames_names:
  "r \<in> set (fst (processFrames parse frames)) \<Longrightarrow>
   event r \<noteq> ''heartbeat'' \<and> event r \<noteq> ''connected''"
  by (induction frames) (auto simp: Let_def split: if_splits option.splits)

lemma trim_empty_iff: "trim s = [] \<longleftrightarrow> (\<forall>c \<in> set s. isWhiteSpace c)"
proof
  assume "trim s = []"
  then have "dropWhile isWhiteSpace (rev (dropWhile isWhiteSpace s)) = []"
    by (simp add: trim_def)
  then have a: "\<forall>c \<in> set (dropWhile isWhiteSpace s). isWhiteSpace c"
    by (simp add: dropWhile_eq_Nil_conv)
  have "dropWhile isWhiteSpace s = []"
  proof (rule ccontr)
    assume ne: "dropWhile isWhiteSpace s \<noteq> []"
    then have "\<not> isWhiteSpace (hd (dropWhile isWhiteSpace s))"
      by (rule hd_dropWhile)
    with a ne show False by (metis list.set_sel(1))
  qed
  then show "\<forall>c \<in> set s. isWhiteSpace c" by (simp add: dropWhile_eq_Nil_conv)
next
  assume "\<forall>c \<in> set s. isWhiteSpace c"
  then have "dropWhile isWhiteSpace s = []" by (induction s) auto
  then show "trim s = []" by (simp only: trim_def dropWhile.simps rev.simps)
qed

lemma set_consHead: "\<Union> (set ` set (consHead c ps)) = insert c (\<Union> (set ` set ps))"
  by (cases ps) auto

lemma jsSplit_chars: "sep \<noteq> [] \<Longrightarrow> set (concat (jsSplit sep s)) \<subseteq> set s"
proof (induction sep s rule: jsSplit.induct)
  case (1 sep s)
  show ?case
  proof (cases "s = []")
    case True
    with 1(3) show ?thesis by (simp add: jsSplit_Nil)
  next
    case False
    show ?thesis
    proof (cases "prefix sep s")
      case True
      have "jsSplit sep s = [] # jsSplit sep (drop (length sep) s)"
        using 1(3) False True by (subst jsSplit.simps) simp
      then show ?thesis using 1(1)[OF 1(3) False True 1(3)]
        by (auto dest: in_set_dropD)
    next
      case np: False
      have "jsSplit sep s = consHead (hd s) (jsSplit sep (tl s))"
        using 1(3) False np by (subst jsSplit.simps) simp
      then show ?thesis using 1(2)[OF 1(3) False np 1(3)] False
        by (cases s) (auto simp: set_consHead)
    qed
  qed
qed

lemma prefix_head_in_set: "prefix (c # p) line \<Longrightarrow> c \<in> set line"
  by (auto simp: prefix_def)

lemma frameLine_blank:
  assumes "\<forall>c \<in> set line. isWhiteSpace c"
  shows "frameLine vars line = vars"
proof -
  have "\<not> startsWith line ''event: ''"
  proof
    assume "startsWith line ''event: ''"
    then have "CHR ''e'' \<in> set line"
      unfolding startsWith_def by (rule prefix_head_in_set)
    with assms have "isWhiteSpace (CHR ''e'')" by blast
    then show False by (simp add: isWhiteSpace_def)
  qed
  moreover have "\<not> startsWith line ''data: ''"
  proof
    assume "startsWith line ''data: ''"
    then have "CHR ''d'' \<in> set line"
      unfolding startsWith_def by (rule prefix_head_in_set)
    with assms have "isWhiteSpace (CHR ''d'')" by blast
    then show False by (simp add: isWhiteSpace_def)
  qed
  ultimately show ?thesis by (simp add: frameLine_def)
qed

lemma foldl_frameLine_blank:
  "\<forall>line \<in> set ls. \<forall>c \<in> set line. isWhiteSpace c \<Longrightarrow> foldl frameLine vars ls = vars"
  by (induction ls arbitrary: vars) (simp_all add: frameLine_blank)

lemma blank_frameFields:
  assumes "trim frame = []"
  shows "frameFields frame = (''message'', ''{}'')"
proof -
  have "\<forall>c \<in> set frame. isWhiteSpace c" using assms by (simp add: trim_empty_iff)
  moreover have "set (concat (jsSplit ''\<newline>'' frame)) \<subseteq> set frame"
    by (rule jsSplit_chars) simp
  ultimately have "\<forall>line \<in> set (jsSplit ''\<newline>'' frame). \<forall>c \<in> set line. isWhiteSpace c"
    by auto
  then show ?thesis by (simp add: frameFields_def foldl_frameLine_blank)
qed

lemma done_not_blank: "frameName frame = ''done'' \<Longrightarrow> trim frame \<noteq> []"
  using blank_frameFields[of frame] by (auto simp: frameName_def)

lemma processFrames_not_closed:
  "\<forall>g \<in> set frames. frameName g \<noteq> ''done'' \<Longrightarrow> snd (processFrames parse frames) = False"
  by (induction frames) (auto simp: Let_def frameName_def)

lemma processFrames_done:
  "frameName frame = ''done'' \<Longrightarrow>
   processFrames parse (frame # post) =
     ((case parse (frameData frame) of
         None \<Rightarrow> [] | Some parsed \<Rightarrow> [\<lparr>event = ''done'', data = parsed\<rparr>]), True)"
  using done_not_blank[of frame]
  by (simp add: Let_def frameName_def frameData_def)

lemma processFrames_malformed:
  "parse (frameData frame) = None \<Longrightarrow> frameName frame \<noteq> ''done'' \<Longrightarrow>
   processFrames parse (frame # post) = processFrames parse post"
  by (simp add: Let_def frameName_def frameData_def)

lemma oneFrame_split:
  assumes "oneFrame frame"
  shows "jsSplit ''\<newline>\<newline>'' (frame @ ''\<newline>\<newline>'' @ t) = frame # jsSplit ''\<newline>\<newline>'' t"
proof -
  have "jsSplit ''\<newline>\<newline>'' ((frame @ ''\<newline>\<newline>'') @ t)
        = butlast (jsSplit ''\<newline>\<newline>'' (frame @ ''\<newline>\<newline>''))
          @ jsSplit ''\<newline>\<newline>'' (last (jsSplit ''\<newline>\<newline>'' (frame @ ''\<newline>\<newline>'')) @ t)"
    by (rule jsSplit_append) simp
  with assms show ?thesis by (simp add: oneFrame_def)
qed

lemma wire_split:
  "\<forall>f \<in> set frames. oneFrame f \<Longrightarrow>
   jsSplit ''\<newline>\<newline>'' (wire frames @ rest) = frames @ jsSplit ''\<newline>\<newline>'' rest"
proof (induction frames)
  case Nil
  then show ?case by (simp add: wire_def)
next
  case (Cons f frames)
  then have "jsSplit ''\<newline>\<newline>'' (wire frames @ rest) = frames @ jsSplit ''\<newline>\<newline>'' rest" by simp
  moreover have "wire (f # frames) @ rest = f @ ''\<newline>\<newline>'' @ (wire frames @ rest)"
    by (simp add: wire_def)
  ultimately show ?case using oneFrame_split[of f "wire frames @ rest"] Cons.prems by simp
qed

lemma processFrames_dataFrames:
  "\<forall>f \<in> set frames. dataFrame parse f \<Longrightarrow>
   processFrames parse frames = (map (frameRecord parse) frames, False)"
  by (induction frames)
     (auto simp: Let_def dataFrame_def frameRecord_def frameName_def frameData_def)

lemma readStep_retains:
  "wire (completeFrames (buffer @ chunk)) @ snd (snd (readStep parse buffer chunk))
     = buffer @ chunk"
  using jsSplit_join[of "''\<newline>\<newline>''" "buffer @ chunk"]
  by (simp add: readStep_def Let_def wire_def completeFrames_def)

lemma readStep_buffer_incomplete:
  "completeFrames (snd (snd (readStep parse buffer chunk))) = []"
  using jsSplit_last_idem[of "''\<newline>\<newline>''" "buffer @ chunk"]
  by (simp add: readStep_def Let_def completeFrames_def)

lemma event_not_data: "startsWith line ''event: '' \<Longrightarrow> \<not> startsWith line ''data: ''"
  by (auto simp: startsWith_def prefix_def)

lemma frameLine_pair:
  "frameLine (a, b) l =
     (if startsWith l ''event: '' then (trim (slice l 7), b)
      else if startsWith l ''data: '' then (a, slice l 6) else (a, b))"
  by (simp add: frameLine_def)

lemma lastWith_snoc:
  "lastWith pre (ls @ [l]) = (if startsWith l pre then Some l else lastWith pre ls)"
  by (simp add: lastWith_def)

lemma foldl_frameLine:
  "foldl frameLine (a, b) ls =
     (case lastWith ''event: '' ls of None \<Rightarrow> a | Some line \<Rightarrow> trim (slice line 7),
      case lastWith ''data: '' ls of None \<Rightarrow> b | Some line \<Rightarrow> slice line 6)"
proof (induction ls rule: rev_induct)
  case Nil
  then show ?case by (simp add: lastWith_def)
next
  case (snoc l ls)
  have "foldl frameLine (a, b) (ls @ [l]) = frameLine (foldl frameLine (a, b) ls) l"
    by simp
  also have "\<dots> = frameLine
      (case lastWith ''event: '' ls of None \<Rightarrow> a | Some line \<Rightarrow> trim (slice line 7),
       case lastWith ''data: '' ls of None \<Rightarrow> b | Some line \<Rightarrow> slice line 6) l"
    by (simp only: snoc)
  finally show ?case
    using event_not_data[of l]
    by (simp only: frameLine_pair lastWith_snoc) auto
qed

lemma frameFields_last:
  "frameFields frame =
     (case lastLineWith ''event: '' frame of None \<Rightarrow> ''message'' | Some line \<Rightarrow> trim (slice line 7),
      case lastLineWith ''data: '' frame of None \<Rightarrow> ''{}'' | Some line \<Rightarrow> slice line 6)"
  using foldl_frameLine[of "''message''" "''{}''" "jsSplit ''\<newline>'' frame"]
  by (simp add: frameFields_def lastLineWith_def lastWith_def)

lemma processFrames_single:
  "trim frame \<noteq> [] \<Longrightarrow> frameName frame \<noteq> ''heartbeat'' \<Longrightarrow> frameName frame \<noteq> ''connected'' \<Longrightarrow>
   fst (processFrames parse [frame]) =
     (case parse (frameData frame) of
        None \<Rightarrow> [] | Some parsed \<Rightarrow> [\<lparr>event = frameName frame, data = parsed\<rparr>])"
  by (simp add: Let_def frameName_def frameData_def split: option.splits)

lemma processFrames_single_record:
  "r \<in> set (fst (processFrames parse [frame])) \<Longrightarrow>
   event r = frameName frame \<and> parse (frameData frame) = Some (data r)"
  by (auto simp: Let_def frameName_def frameData_def split: if_splits option.splits)

section \<open>The translator keeps its spans\<close>

lemma textSpans_append:
  "textSpans a (xs @ ys) = (case textSpans a xs of None \<Rightarrow> None | Some b \<Rightarrow> textSpans b ys)"
  by (induction a xs rule: textSpans.induct) auto

lemma textStarts_append: "textStarts (xs @ ys) = textStarts xs @ textStarts ys"
  by (induction xs rule: textStarts.induct) auto

lemma textEnds_append: "textEnds (xs @ ys) = textEnds xs @ textEnds ys"
  by (induction xs rule: textEnds.induct) auto

lemma extendsI:
  assumes "written st' = written st @ out"
    and "textSpans (activeTextId st) out = Some (activeTextId st')"
    and "nextId st \<le> nextId st'"
    and "\<forall>x \<in> set (textStarts out). nextId st \<le> x \<and> x < nextId st'"
    and "distinct (textStarts out)"
  shows "extends st st'"
  using assms by (simp add: extends_def emitted_def list_all_iff)

lemma extendsE:
  assumes "extends st st'"
  obtains out where "written st' = written st @ out"
    and "textSpans (activeTextId st) out = Some (activeTextId st')"
    and "nextId st \<le> nextId st'"
    and "\<forall>x \<in> set (textStarts out). nextId st \<le> x \<and> x < nextId st'"
    and "distinct (textStarts out)"
proof -
  let ?out = "emitted (written st) st'"
  have "written st' = written st @ ?out"
    using assms append_take_drop_id[of "length (written st)" "written st'"]
    by (simp add: extends_def emitted_def)
  then show ?thesis using assms that[of ?out] by (simp add: extends_def list_all_iff)
qed

lemma extends_refl: "extends st st"
  by (rule extendsI[of _ _ "[]"]) simp_all

lemma extends_trans:
  assumes "extends a b" and "extends b c"
  shows "extends a c"
proof -
  from assms(1) obtain o1 where o1: "written b = written a @ o1"
    "textSpans (activeTextId a) o1 = Some (activeTextId b)" "nextId a \<le> nextId b"
    "\<forall>x \<in> set (textStarts o1). nextId a \<le> x \<and> x < nextId b" "distinct (textStarts o1)"
    by (rule extendsE)
  from assms(2) obtain o2 where o2: "written c = written b @ o2"
    "textSpans (activeTextId b) o2 = Some (activeTextId c)" "nextId b \<le> nextId c"
    "\<forall>x \<in> set (textStarts o2). nextId b \<le> x \<and> x < nextId c" "distinct (textStarts o2)"
    by (rule extendsE)
  show ?thesis
  proof (rule extendsI[of _ _ "o1 @ o2"])
    show "written c = written a @ o1 @ o2" using o1(1) o2(1) by simp
    show "textSpans (activeTextId a) (o1 @ o2) = Some (activeTextId c)"
      using o1(2) o2(2) by (simp add: textSpans_append)
    show "nextId a \<le> nextId c" using o1(3) o2(3) by simp
    show "\<forall>x \<in> set (textStarts (o1 @ o2)). nextId a \<le> x \<and> x < nextId c"
      using o1(3,4) o2(3,4) by (fastforce simp: textStarts_append)
    show "distinct (textStarts (o1 @ o2))"
      using o1(4,5) o2(4,5) by (fastforce simp: textStarts_append)
  qed
qed

lemma extends_generateUUID: "extends st (snd (generateUUID st))"
  by (rule extendsI[of _ _ "[]"]) (simp_all add: generateUUID_def)

lemma extends_finishText: "extends st (finishText st)"
proof (cases "activeTextId st")
  case None
  then show ?thesis by (simp add: finishText_def extends_refl)
next
  case (Some x)
  show ?thesis
    by (rule extendsI[of _ _ "[TextEnd x]"]) (simp_all add: finishText_def writeChunk_def Some)
qed

lemma extends_ensureTextStarted: "extends st (snd (ensureTextStarted st))"
proof (cases "activeTextId st")
  case None
  show ?thesis
    by (rule extendsI[of _ _ "[TextStart (nextId st)]"])
       (simp_all add: ensureTextStarted_def generateUUID_def writeChunk_def None Let_def)
next
  case (Some x)
  then show ?thesis by (simp add: ensureTextStarted_def extends_refl)
qed

lemma extends_writeChunk: "\<not> isTextBracket part \<Longrightarrow> extends st (writeChunk part st)"
  by (rule extendsI[of _ _ "[part]"]) (cases part; simp add: writeChunk_def)+

lemma extends_write_after:
  "extends st st1 \<Longrightarrow> \<not> isTextBracket part \<Longrightarrow> extends st (writeChunk part st1)"
  by (rule extends_trans[OF _ extends_writeChunk])

lemma handleEvent_other:
  assumes "event ev \<noteq> ''agent:thinking''" "event ev \<noteq> ''agent:response''"
    "event ev \<noteq> ''task:created''" "event ev \<noteq> ''task:started''"
    "event ev \<noteq> ''task:completed''" "event ev \<noteq> ''task:failed''"
    "event ev \<noteq> ''goal:completed''" "event ev \<noteq> ''agent:error''"
    "event ev \<noteq> ''loop:error''"
  shows "handleEvent numText ev st = (None, st)"
  using assms by (simp add: handleEvent_def Let_def)

lemma extends_handleEvent: "extends st (snd (handleEvent numText ev st))"
proof -
  note steps = extends_refl extends_finishText extends_ensureTextStarted extends_generateUUID
  have fin_gen: "extends st (snd (generateUUID (finishText st)))"
    by (rule extends_trans[OF extends_finishText extends_generateUUID])
  have goal: "\<And>part. \<not> isTextBracket part \<Longrightarrow>
      extends st (finishText (writeChunk part (snd (ensureTextStarted st))))"
    by (rule extends_trans[OF extends_write_after[OF extends_ensureTextStarted] extends_finishText])
  note rules = extends_write_after fin_gen goal steps
  have 1: "event ev = ''agent:thinking'' \<Longrightarrow> ?thesis"
    by (auto simp: handleEvent_def Let_def intro!: rules split: sum.splits option.splits)
  have 2: "event ev = ''agent:response'' \<Longrightarrow> ?thesis"
    by (auto simp: handleEvent_def Let_def intro!: rules split: sum.splits option.splits)
  have 3: "event ev = ''task:created'' \<Longrightarrow> ?thesis"
    by (auto simp: handleEvent_def Let_def intro!: rules split: sum.splits option.splits)
  have 4: "event ev = ''task:started'' \<Longrightarrow> ?thesis"
    by (auto simp: handleEvent_def Let_def intro!: rules split: sum.splits option.splits)
  have 5: "event ev = ''task:completed'' \<Longrightarrow> ?thesis"
    by (auto simp: handleEvent_def Let_def intro!: rules split: sum.splits option.splits)
  have 6: "event ev = ''task:failed'' \<Longrightarrow> ?thesis"
    by (auto simp: handleEvent_def Let_def intro!: rules split: sum.splits option.splits)
  have 7: "event ev = ''goal:completed'' \<Longrightarrow> ?thesis"
    by (auto simp: handleEvent_def Let_def intro!: rules split: sum.splits option.splits)
  have 8: "event ev = ''agent:error'' \<Longrightarrow> ?thesis"
    by (auto simp: handleEvent_def Let_def intro!: rules split: sum.splits option.splits)
  have 9: "event ev = ''loop:error'' \<Longrightarrow> ?thesis"
    by (auto simp: handleEvent_def Let_def intro!: rules split: sum.splits option.splits)
  show ?thesis
    using 1 2 3 4 5 6 7 8 9 handleEvent_other[of ev numText st] extends_refl[of st]
    by (metis snd_conv)
qed

lemma extends_translateEvents:
  "extends st (snd (translateEvents numText events st))"
proof (induction events arbitrary: st)
  case Nil
  then show ?case by (simp add: extends_refl)
next
  case (Cons ev events)
  obtain r st1 where h: "handleEvent numText ev st = (r, st1)" by (cases "handleEvent numText ev st")
  have e1: "extends st st1" using extends_handleEvent[of st numText ev] h by simp
  show ?case
  proof (cases r)
    case None
    then show ?thesis using h extends_trans[OF e1 Cons.IH[of st1]] by simp
  next
    case (Some e)
    then show ?thesis using h e1 by simp
  qed
qed

lemma activeTextId_finishText: "activeTextId (finishText st) = None"
  by (simp add: finishText_def writeChunk_def split: option.splits)

lemma snd_driveStream:
  "snd (driveStream numText stream st) = finishText (snd (translateEvents numText (fst stream) st))"
  by (simp add: driveStream_def split: prod.splits option.splits streamEnd.splits)

lemma fst_driveStream:
  "fst (driveStream numText stream st) =
     (case fst (translateEvents numText (fst stream) st) of
        Some e \<Rightarrow> Inl e
      | None \<Rightarrow> (case snd stream of Closed \<Rightarrow> Inr () | Errored err \<Rightarrow> Inl (Rethrown err)))"
  by (simp add: driveStream_def split: prod.splits option.splits streamEnd.splits)

lemma extends_driveStream: "extends st (snd (driveStream numText stream st))"
  unfolding snd_driveStream by (rule extends_trans[OF extends_translateEvents extends_finishText])

lemma activeTextId_driveStream: "activeTextId (snd (driveStream numText stream st)) = None"
  unfolding snd_driveStream by (rule activeTextId_finishText)

lemma textSpans_prefix:
  "textSpans a (xs @ ys) = Some b \<Longrightarrow> textSpans a xs \<noteq> None"
  by (auto simp: textSpans_append split: option.splits)

lemma textSpans_take: "textSpans a xs = Some b \<Longrightarrow> textSpans a (take k xs) \<noteq> None"
  using textSpans_prefix[of a "take k xs" "drop k xs" b] by simp

lemma textSpans_ids:
  "textSpans a parts = Some b \<Longrightarrow>
   (case a of None \<Rightarrow> [] | Some x \<Rightarrow> [x]) @ textStarts parts
     = textEnds parts @ (case b of None \<Rightarrow> [] | Some x \<Rightarrow> [x])"
  by (induction a parts rule: textSpans.induct) (auto split: if_splits)

lemma translateEvents_append:
  "translateEvents numText (pre @ post) st =
     (case translateEvents numText pre st of
        (None, st1) \<Rightarrow> translateEvents numText post st1
      | (Some e, st1) \<Rightarrow> (Some e, st1))"
  by (induction pre arbitrary: st) (auto split: prod.splits option.splits)

lemma isNull_iff: "isNull d \<longleftrightarrow> d = JNull"
  by (cases d) simp_all

lemma jsToString_printable:
  "(printable v \<longrightarrow> jsToString numText v = Inr (plainText numText v))
   \<and> (\<not> printable v \<longrightarrow> jsToString numText v = Inl TypeErrorPrimitive)"
  "(printableAll vs \<longrightarrow> jsJoin numText vs = Inr (plainJoin numText vs))
   \<and> (\<not> printableAll vs \<longrightarrow> jsJoin numText vs = Inl TypeErrorPrimitive)"
proof (induction numText v and numText vs rule: jsToString_jsJoin.induct)
  case (8 numText x xs)
  show ?case
  proof (cases xs)
    case Nil
    then show ?thesis using 8 by (cases x) (auto split: option.splits)
  next
    case (Cons y ys)
    then show ?thesis using 8 by (cases x) (auto split: option.splits sum.splits)
  qed
qed (auto split: option.splits)

lemma countText_countable:
  assumes "countable field"
  shows "countText numText field
     = Inr (case firstPresent [field] of None \<Rightarrow> ''0'' | Some v \<Rightarrow> plainText numText v)"
proof (cases field)
  case None
  then show ?thesis by simp
next
  case (Some v)
  show ?thesis
  proof (cases "v = JNull")
    case True
    then show ?thesis using Some by simp
  next
    case False
    have a: "countText numText (Some v) = jsToString numText v" using False by (cases v) simp_all
    have b: "firstPresent [Some v] = Some v" using False by (cases v) simp_all
    have "printable v" using assms Some by (simp add: countable_def)
    then show ?thesis using a b Some jsToString_printable(1)[of v numText] by simp
  qed
qed

lemma wellBracketedI:
  assumes "textSpans None parts = Some None" and "distinct (textStarts parts)"
  shows "wellBracketed parts"
  using assms textSpans_ids[OF assms(1)] textSpans_take[OF assms(1)]
  by (simp add: wellBracketed_def list_all_iff)

lemma driveStream_wellBracketed:
  assumes "activeTextId st = None"
  shows "written (snd (driveStream numText stream st))
           = written st @ emitted (written st) (snd (driveStream numText stream st))
         \<and> wellBracketed (emitted (written st) (snd (driveStream numText stream st)))"
proof -
  let ?st' = "snd (driveStream numText stream st)"
  obtain out where out: "written ?st' = written st @ out"
    "textSpans (activeTextId st) out = Some (activeTextId ?st')"
    "distinct (textStarts out)"
    using extends_driveStream[of st numText stream] by (rule extendsE)
  have e: "emitted (written st) ?st' = out" using out(1) by (simp add: emitted_def)
  have "textSpans None out = Some None"
    using out(2) assms activeTextId_driveStream[of numText stream st] by simp
  then show ?thesis using out(1,3) e by (simp add: wellBracketedI)
qed

lemma driveStream_stops:
  assumes "fst (translateEvents numText pre st) = None"
    and "fst (handleEvent numText ev (snd (translateEvents numText pre st))) = Some e"
  shows "driveStream numText (pre @ ev # post, fin) st
           = (Inl e, finishText (snd (handleEvent numText ev (snd (translateEvents numText pre st)))))"
proof -
  obtain st1 where p: "translateEvents numText pre st = (None, st1)"
    using assms(1) by (cases "translateEvents numText pre st") auto
  obtain st2 where h: "handleEvent numText ev st1 = (Some e, st2)"
    using assms(2) p by (cases "handleEvent numText ev st1") auto
  have "translateEvents numText (pre @ ev # post) st = (Some e, st2)"
    by (simp add: translateEvents_append p h)
  then show ?thesis by (simp add: driveStream_def p h)
qed

lemma handleEvent_goal_completed:
  assumes "event ev = ''goal:completed''" and "data ev \<noteq> JNull"
    and "countable (getProp (data ev) ''completed'')"
    and "countable (getProp (data ev) ''tasks'')"
    and "countable (getProp (data ev) ''failed'')"
  shows "handleEvent numText ev st =
     (None,
      st\<lparr>activeTextId := None,
         nextId := (case activeTextId st of None \<Rightarrow> Suc (nextId st) | Some x \<Rightarrow> nextId st),
         written := written st @ spanOpening st
           @ [TextDelta (openId st)
                (''\<newline>\<newline>---\<newline>Goal completed ('' @ fieldCount numText (data ev) ''completed''
                 @ ''/'' @ fieldCount numText (data ev) ''tasks''
                 @ '' tasks, '' @ fieldCount numText (data ev) ''failed'' @ '' failed)\<newline>''),
              TextEnd (openId st), Finish ''stop'']\<rparr>)"
  using assms(1,2)
  by (simp add: handleEvent_def Let_def isNull_iff countText_countable[OF assms(3)]
      countText_countable[OF assms(4)] countText_countable[OF assms(5)] fieldCount_def
      ensureTextStarted_def finishText_def writeChunk_def generateUUID_def spanOpening_def
      openId_def split: option.splits)

lemma written_prefix:
  "extends st st' \<Longrightarrow> written st' = written st @ emitted (written st) st'"
  by (erule extendsE) (simp add: emitted_def)

lemma handleEvent_no_finish:
  assumes "event ev \<noteq> ''goal:completed''"
  shows "\<not> list_ex isFinish (emitted (written st) (snd (handleEvent numText ev st)))"
proof -
  note defs = handleEvent_def Let_def ensureTextStarted_def finishText_def writeChunk_def
    generateUUID_def emitted_def list_ex_iff
  have 1: "event ev = ''agent:thinking'' \<Longrightarrow> ?thesis"
    by (auto simp: defs split: sum.splits option.splits)
  have 2: "event ev = ''agent:response'' \<Longrightarrow> ?thesis"
    by (auto simp: defs split: sum.splits option.splits)
  have 3: "event ev = ''task:created'' \<Longrightarrow> ?thesis"
    by (auto simp: defs split: sum.splits option.splits)
  have 4: "event ev = ''task:started'' \<Longrightarrow> ?thesis"
    by (auto simp: defs split: sum.splits option.splits)
  have 5: "event ev = ''task:completed'' \<Longrightarrow> ?thesis"
    by (auto simp: defs split: sum.splits option.splits)
  have 6: "event ev = ''task:failed'' \<Longrightarrow> ?thesis"
    by (auto simp: defs split: sum.splits option.splits)
  have 8: "event ev = ''agent:error'' \<Longrightarrow> ?thesis"
    by (auto simp: defs split: sum.splits option.splits)
  have 9: "event ev = ''loop:error'' \<Longrightarrow> ?thesis"
    by (auto simp: defs split: sum.splits option.splits)
  have 0: "handleEvent numText ev st = (None, st) \<Longrightarrow> ?thesis"
    by (simp add: emitted_def)
  show ?thesis
    using assms 1 2 3 4 5 6 8 9 0 handleEvent_other[of ev numText st] by blast
qed

lemma withDefault_coalesce:
  "withDefault (coalesce a b) d = withDefault a (withDefault b d)"
  by (induction a b rule: coalesce.induct) simp_all

lemma firstPresent_withDefault:
  "(case firstPresent (a # vs) of None \<Rightarrow> d | Some x \<Rightarrow> x)
     = withDefault a (case firstPresent vs of None \<Rightarrow> d | Some x \<Rightarrow> x)"
  by (induction a d rule: withDefault.induct) simp_all

lemma withDefault2:
  "withDefault (coalesce a b) d = (case firstPresent [a, b] of None \<Rightarrow> d | Some x \<Rightarrow> x)"
  by (simp only: withDefault_coalesce firstPresent_withDefault firstPresent.simps option.case)

lemma withDefault3:
  "withDefault (coalesce (coalesce a b) c) d
     = (case firstPresent [a, b, c] of None \<Rightarrow> d | Some x \<Rightarrow> x)"
  by (simp only: withDefault_coalesce firstPresent_withDefault firstPresent.simps option.case)

lemma textResponse_not_null: "textResponse ev \<Longrightarrow> data ev \<noteq> JNull"
  by (auto simp: textResponse_def responseContent_def)

lemma handleEvent_textResponse:
  assumes "textResponse ev"
  shows "handleEvent numText ev st =
           (None,
            st\<lparr>activeTextId := Some (openId st),
               nextId := (case activeTextId st of None \<Rightarrow> Suc (nextId st) | Some x \<Rightarrow> nextId st),
               written := written st @ spanOpening st @ [delta (openId st) ev]\<rparr>)"
proof -
  obtain s where s: "responseContent ev = Some (JStr s)" "s \<noteq> []" "event ev = ''agent:response''"
    using assms by (auto simp: textResponse_def)
  have c: "withDefault
             (coalesce (coalesce (getProp (data ev) ''output'') (getProp (data ev) ''text''))
                (getProp (data ev) ''content'')) (JStr []) = JStr s"
    using s(1) by (simp only: withDefault3 responseContent_def option.case)
  have n: "\<not> isNull (data ev)" using textResponse_not_null[OF assms] by (simp add: isNull_iff)
  show ?thesis
    using s(2,3) n
    by (simp add: handleEvent_def Let_def c s(1) delta_def ensureTextStarted_def generateUUID_def
        writeChunk_def openId_def spanOpening_def split: option.splits)
qed

lemma translateEvents_textResponse_open:
  assumes "activeTextId st = Some x" and "\<forall>ev \<in> set evs. textResponse ev"
  shows "translateEvents numText evs st
           = (None, st\<lparr>written := written st @ map (delta x) evs\<rparr>)"
  using assms
proof (induction evs arbitrary: st)
  case Nil
  then show ?case by simp
next
  case (Cons ev evs)
  let ?st1 = "st\<lparr>written := written st @ [delta x ev]\<rparr>"
  have h: "handleEvent numText ev st = (None, ?st1)"
    using Cons.prems by (simp add: handleEvent_textResponse openId_def spanOpening_def)
  have "translateEvents numText evs ?st1
          = (None, ?st1\<lparr>written := written ?st1 @ map (delta x) evs\<rparr>)"
    using Cons.prems by (intro Cons.IH) simp_all
  then show ?case by (simp add: h)
qed

lemma translateEvents_textResponse:
  assumes "evs \<noteq> []" and "\<forall>ev \<in> set evs. textResponse ev"
  shows "translateEvents numText evs st =
           (None,
            st\<lparr>activeTextId := Some (openId st),
               nextId := (case activeTextId st of None \<Rightarrow> Suc (nextId st) | Some x \<Rightarrow> nextId st),
               written := written st @ spanOpening st @ map (delta (openId st)) evs\<rparr>)"
proof -
  obtain ev rest where evs: "evs = ev # rest" using assms(1) by (cases evs) auto
  let ?st1 = "st\<lparr>activeTextId := Some (openId st),
               nextId := (case activeTextId st of None \<Rightarrow> Suc (nextId st) | Some x \<Rightarrow> nextId st),
               written := written st @ spanOpening st @ [delta (openId st) ev]\<rparr>"
  have h: "handleEvent numText ev st = (None, ?st1)"
    using assms(2) evs by (simp add: handleEvent_textResponse)
  have "translateEvents numText rest ?st1
          = (None, ?st1\<lparr>written := written ?st1 @ map (delta (openId st)) rest\<rparr>)"
    using assms(2) evs by (intro translateEvents_textResponse_open) simp_all
  then show ?thesis by (simp add: evs h)
qed

lemma finishText_eq:
  "finishText st = st\<lparr>activeTextId := None, written := written st @ spanClosing st\<rparr>"
  by (cases "activeTextId st") (simp_all add: finishText_def writeChunk_def spanClosing_def)

lemma handleEvent_error:
  assumes "event ev = ''agent:error'' \<or> event ev = ''loop:error''"
  shows "handleEvent numText ev st =
           (if isNull (data ev) then (Some (TypeErrorNull ''error''), finishText st)
            else (None,
                  writeChunk
                    (ErrorChunk (withDefault (coalesce (getProp (data ev) ''error'')
                                                (getProp (data ev) ''message''))
                                   (JStr ''Engine error'')))
                    (finishText st)))"
proof -
  from assms show ?thesis
  proof
    assume "event ev = ''agent:error''"
    then show ?thesis by (simp add: handleEvent_def Let_def)
  next
    assume "event ev = ''loop:error''"
    then show ?thesis by (simp add: handleEvent_def Let_def)
  qed
qed

section \<open>The properties\<close>

text \<open>
  Claim C1. Whatever records the stream delivers and however the driving loop is left,
  by the end of a closed stream (the end of the body or a \<^verbatim>\<open>done\<close> frame), by the error of
  an errored stream thrown from the read, or by an exception thrown inside \<open>handleEvent\<close>
  in the middle of an event, the parts that the loop and its \<^verbatim>\<open>finally\<close> block write on the
  sink are well bracketed: a text span is opened only when none is open, closed only when
  it is the open one, every span opened is closed before the function returns or passes
  the exception on, and no identifier is opened twice. No span is left open. The function
  returns only when no event threw and the stream is closed; otherwise the exception
  reaches the caller after the span is closed. At the first event that throws the loop
  stops: the events after it are not translated. The same bracketing holds of
  \<open>createEngineStream\<close> as a whole.
\<close>

theorem text_spans_bracketed:
  "written (snd (driveStream numText stream \<lparr>activeTextId = None, nextId = uuid, written = sink\<rparr>))
     = sink @ emitted sink
         (snd (driveStream numText stream \<lparr>activeTextId = None, nextId = uuid, written = sink\<rparr>))
   \<and> wellBracketed
       (emitted sink
         (snd (driveStream numText stream \<lparr>activeTextId = None, nextId = uuid, written = sink\<rparr>)))
   \<and> activeTextId
         (snd (driveStream numText stream \<lparr>activeTextId = None, nextId = uuid, written = sink\<rparr>))
       = None
   \<and> fst (driveStream numText stream \<lparr>activeTextId = None, nextId = uuid, written = sink\<rparr>)
       = (case fst (translateEvents numText (fst stream)
                      \<lparr>activeTextId = None, nextId = uuid, written = sink\<rparr>) of
            Some e \<Rightarrow> Inl e
          | None \<Rightarrow> (case snd stream of Closed \<Rightarrow> Inr () | Errored err \<Rightarrow> Inl (Rethrown err)))
   \<and> (fst (translateEvents numText pre \<lparr>activeTextId = None, nextId = uuid, written = sink\<rparr>) = None
        \<and> fst (handleEvent numText ev
                 (snd (translateEvents numText pre
                         \<lparr>activeTextId = None, nextId = uuid, written = sink\<rparr>))) = Some e
      \<longrightarrow> driveStream numText (pre @ ev # post, fin)
            \<lparr>activeTextId = None, nextId = uuid, written = sink\<rparr>
          = (Inl e,
             finishText
               (snd (handleEvent numText ev
                       (snd (translateEvents numText pre
                               \<lparr>activeTextId = None, nextId = uuid, written = sink\<rparr>))))))
   \<and> wellBracketed
       (emitted sink
         (snd (createEngineStream env fetch encodeURIComponent parse numText goalId sink uuid)))"
proof -
  let ?st = "\<lparr>activeTextId = None, nextId = uuid, written = sink\<rparr> :: 'a translator"
  have a: "\<And>s. written (snd (driveStream numText s ?st))
             = sink @ emitted sink (snd (driveStream numText s ?st))
           \<and> wellBracketed (emitted sink (snd (driveStream numText s ?st)))"
    using driveStream_wellBracketed[of ?st numText] by simp
  have c: "wellBracketed
       (emitted sink
         (snd (createEngineStream env fetch encodeURIComponent parse numText goalId sink uuid)))"
  proof (cases "fst (streamGoalEvents env fetch encodeURIComponent parse goalId)")
    case (Inl err)
    then show ?thesis
      by (simp add: createEngineStream_def Let_def emitted_def wellBracketed_def)
  next
    case (Inr s)
    then show ?thesis using a[of s] by (simp add: createEngineStream_def Let_def)
  qed
  show ?thesis
    using a[of stream] c fst_driveStream[of numText stream ?st]
      activeTextId_driveStream[of numText stream ?st]
      driveStream_stops[of numText pre ?st ev e post fin]
    by blast
qed

theorem text_spans_bracketed_witness:
  "driveStream showInt (sampleEvents, Closed) \<lparr>activeTextId = None, nextId = 0, written = []\<rparr>
     = (Inl TypeErrorPrimitive,
        \<lparr>activeTextId = None, nextId = 3,
           written =
             [TextStart 0, TextDelta 0 ''Hello\<newline>\<newline>'', TextEnd 0,
              ReasoningStart 1, ReasoningDelta 1 (JStr ''agent is thinking...''), ReasoningEnd 1,
              TextStart 2, TextEnd 2]\<rparr>)
   \<and> wellBracketed
        [TextStart 0, TextDelta 0 ''Hello\<newline>\<newline>'', TextEnd 0,
         ReasoningStart 1, ReasoningDelta 1 (JStr ''agent is thinking...''), ReasoningEnd 1,
         TextStart 2, TextEnd (2::nat) :: int chunk]"
proof -
  let ?st = "\<lparr>activeTextId = None, nextId = 0, written = []\<rparr> :: int translator"
  let ?pre = "[\<lparr>event = ''agent:response'', data = JObj [(''output'', JStr ''Hello'')]\<rparr>,
               \<lparr>event = ''agent:thinking'', data = JObj [] :: int json\<rparr>]"
  let ?ev = "\<lparr>event = ''goal:completed'',
               data = JObj [(''tasks'', JObj [(''toString'', JNum (1::int))])]\<rparr>"
  let ?post = "[\<lparr>event = ''agent:response'', data = JObj [(''output'', JStr ''Bye'')] :: int json\<rparr>]"
  have cut: "sampleEvents = ?pre @ ?ev # ?post" by (simp add: sampleEvents_def)
  have h: "fst (translateEvents showInt ?pre ?st) = None
           \<and> fst (handleEvent showInt ?ev (snd (translateEvents showInt ?pre ?st)))
               = Some TypeErrorPrimitive"
    by code_simp
  have r: "finishText (snd (handleEvent showInt ?ev (snd (translateEvents showInt ?pre ?st))))
           = \<lparr>activeTextId = None, nextId = 3,
           written =
             [TextStart 0, TextDelta 0 ''Hello\<newline>\<newline>'', TextEnd 0,
              ReasoningStart 1, ReasoningDelta 1 (JStr ''agent is thinking...''), ReasoningEnd 1,
              TextStart 2, TextEnd 2]\<rparr>"
    by code_simp
  note t = text_spans_bracketed[where numText = showInt and stream = "(sampleEvents, Closed)"
      and uuid = 0 and sink = "[]" and pre = ?pre and ev = ?ev and e = TypeErrorPrimitive
      and post = ?post and fin = Closed]
  have run: "driveStream showInt (sampleEvents, Closed) ?st
     = (Inl TypeErrorPrimitive,
        \<lparr>activeTextId = None, nextId = 3,
           written =
             [TextStart 0, TextDelta 0 ''Hello\<newline>\<newline>'', TextEnd 0,
              ReasoningStart 1, ReasoningDelta 1 (JStr ''agent is thinking...''), ReasoningEnd 1,
              TextStart 2, TextEnd 2]\<rparr>)"
    using conjunct1[OF conjunct2[OF conjunct2[OF conjunct2[OF conjunct2[OF t]]]], THEN mp, OF h]
    unfolding r cut .
  have "wellBracketed (emitted [] (snd (driveStream showInt (sampleEvents, Closed) ?st)))"
    using conjunct1[OF conjunct2[OF t]] .
  then show ?thesis unfolding run by (simp add: emitted_def)
qed

text \<open>
  Claim C2, as worded, counts one record for every complete frame with an event line and
  a data line. The decoder yields no record for such a frame when it is named
  \<^verbatim>\<open>heartbeat\<close>: the frame is skipped by the test on the control names.
\<close>

theorem heartbeat_frame_yields_no_record:
  "jsSplit ''\<newline>'' ''event: heartbeat\<newline>data: {}'' = [''event: heartbeat'', ''data: {}'']
   \<and> objectParse ''{}'' = Some []
   \<and> decodeBody objectParse ([''event: heartbeat\<newline>data: {}\<newline>\<newline>''], BodyDone) = ([], Closed)"
  by code_simp

text \<open>
  Claim C2, amended. For every list of frames that carry data (each one complete frame,
  not blank, named neither \<^verbatim>\<open>heartbeat\<close>, \<^verbatim>\<open>connected\<close> nor \<^verbatim>\<open>done\<close>, with data that parses),
  followed by any incomplete rest, and for every way of cutting that text into reads, the
  decoder yields exactly the records of these frames, in their order, each once; the
  incomplete rest is not parsed. In every read, the records come from the complete frames
  of the buffer and the text read, and the new buffer is the text after the last
  separator, which holds no complete frame.
\<close>

theorem data_frames_decode_in_order:
  assumes "\<forall>f \<in> set frames. dataFrame parse f"
    and "completeFrames rest = []"
    and "concat chunks = wire frames @ rest"
  shows "decodeBody parse (chunks, fin) = (map (frameRecord parse) frames, endStatus fin)
         \<and> fst (readStep parse buffer chunk)
             = fst (processFrames parse (completeFrames (buffer @ chunk)))
         \<and> wire (completeFrames (buffer @ chunk)) @ snd (snd (readStep parse buffer chunk))
             = buffer @ chunk
         \<and> completeFrames (snd (snd (readStep parse buffer chunk))) = []"
proof -
  have one: "\<forall>f \<in> set frames. oneFrame f" using assms(1) by (simp add: dataFrame_def)
  have "completeFrames (concat chunks) = frames"
    using wire_split[OF one, of rest] assms(2,3)
      jsSplit_nonempty[of "''\<newline>\<newline>''" rest]
    by (simp add: completeFrames_def butlast_append)
  then have "decodeBody parse (chunks, fin) = (map (frameRecord parse) frames, endStatus fin)"
    using processFrames_dataFrames[OF assms(1)] by (simp add: decodeBody_frames)
  moreover have "fst (readStep parse buffer chunk)
             = fst (processFrames parse (completeFrames (buffer @ chunk)))"
    by (simp add: readStep_def Let_def completeFrames_def)
  ultimately show ?thesis
    using readStep_retains[of buffer chunk parse] readStep_buffer_incomplete[of parse buffer chunk]
    by simp
qed

theorem data_frames_decode_in_order_witness:
  "decodeBody objectParse
     ([''event: a\<newline>da'', ''ta: {}\<newline>'', ''\<newline>event: b\<newline>data: {}\<newline>\<newline>event: c''], BodyFails (Error ''reset''))
     = ([\<lparr>event = ''a'', data = []\<rparr>, \<lparr>event = ''b'', data = []\<rparr>], Errored (Error ''reset''))"
proof -
  have a: "\<forall>f \<in> set [''event: a\<newline>data: {}'', ''event: b\<newline>data: {}'']. dataFrame objectParse f"
    by code_simp
  have b: "completeFrames ''event: c'' = []" by code_simp
  have c: "concat [''event: a\<newline>da'', ''ta: {}\<newline>'', ''\<newline>event: b\<newline>data: {}\<newline>\<newline>event: c'']
           = wire [''event: a\<newline>data: {}'', ''event: b\<newline>data: {}''] @ ''event: c''"
    by code_simp
  have d: "map (frameRecord objectParse) [''event: a\<newline>data: {}'', ''event: b\<newline>data: {}'']
           = [\<lparr>event = ''a'', data = []\<rparr>, \<lparr>event = ''b'', data = []\<rparr>]"
    by code_simp
  show ?thesis
    using data_frames_decode_in_order[OF a b c, of "BodyFails (Error ''reset'')"] d
    by simp
qed

text \<open>
  Claim C3, as worded, has every \<^verbatim>\<open>goal:completed\<close> event write the summary delta, the text
  end and the finish part. When the field \<^verbatim>\<open>tasks\<close> is an object with a property
  \<^verbatim>\<open>toString\<close> of its own, the template literal of the summary throws after the text start
  is written: \<open>handleEvent\<close> writes no delta and no finish part, and the run ends with the
  text start, the text end of the \<^verbatim>\<open>finally\<close> block and the exception.
\<close>

theorem unprintable_count_stops_goal_completed:
  "handleEvent showInt
     \<lparr>event = ''goal:completed'', data = JObj [(''tasks'', JObj [(''toString'', JNum 1)])]\<rparr>
     \<lparr>activeTextId = None, nextId = 0, written = []\<rparr>
   = (Some TypeErrorPrimitive, \<lparr>activeTextId = Some 0, nextId = 1, written = [TextStart 0]\<rparr>)
   \<and> driveStream showInt
       ([\<lparr>event = ''goal:completed'',
           data = JObj [(''tasks'', JObj [(''toString'', JNum 1)])]\<rparr>], Closed)
       \<lparr>activeTextId = None, nextId = 0, written = []\<rparr>
     = (Inl TypeErrorPrimitive,
        \<lparr>activeTextId = None, nextId = 1, written = [TextStart 0, TextEnd 0]\<rparr>)"
  by code_simp

text \<open>
  Claim C3, amended. For every \<^verbatim>\<open>goal:completed\<close> event whose payload is not \<^verbatim>\<open>null\<close> and
  whose fields \<^verbatim>\<open>completed\<close>, \<^verbatim>\<open>tasks\<close> and \<^verbatim>\<open>failed\<close> are each missing or printable, the
  translator returns normally and has written, in this order, a text start when no span
  was open, one text delta with the summary line, the text end of that span, and a finish
  part with the reason \<^verbatim>\<open>stop\<close>; no span is left open. The three counts of the summary are
  the texts of the fields, \<^verbatim>\<open>0\<close> for a field that is missing, and for a number its text. An
  event of any other name writes no finish part, whether it returns or throws.
\<close>

theorem goal_completed_chunks:
  "(event ev = ''goal:completed'' \<and> data ev \<noteq> JNull
      \<and> countable (getProp (data ev) ''completed'')
      \<and> countable (getProp (data ev) ''tasks'')
      \<and> countable (getProp (data ev) ''failed'') \<longrightarrow>
      handleEvent numText ev st =
        (None,
         st\<lparr>activeTextId := None,
            nextId := (case activeTextId st of None \<Rightarrow> Suc (nextId st) | Some x \<Rightarrow> nextId st),
            written := written st @ spanOpening st
              @ [TextDelta (openId st)
                   (''\<newline>\<newline>---\<newline>Goal completed ('' @ fieldCount numText (data ev) ''completed''
                    @ ''/'' @ fieldCount numText (data ev) ''tasks''
                    @ '' tasks, '' @ fieldCount numText (data ev) ''failed'' @ '' failed)\<newline>''),
                 TextEnd (openId st), Finish ''stop'']\<rparr>))
   \<and> (getProp (data ev) key = None \<longrightarrow> fieldCount numText (data ev) key = ''0'')
   \<and> (getProp (data ev) key = Some JNull \<longrightarrow> fieldCount numText (data ev) key = ''0'')
   \<and> (getProp (data ev) key = Some (JNum n) \<longrightarrow> fieldCount numText (data ev) key = numText n)
   \<and> (event ev \<noteq> ''goal:completed'' \<longrightarrow>
        written (snd (handleEvent numText ev st))
          = written st @ emitted (written st) (snd (handleEvent numText ev st))
        \<and> \<not> list_ex isFinish (emitted (written st) (snd (handleEvent numText ev st))))"
proof (intro conjI impI)
  assume a: "event ev = ''goal:completed'' \<and> data ev \<noteq> JNull
      \<and> countable (getProp (data ev) ''completed'')
      \<and> countable (getProp (data ev) ''tasks'')
      \<and> countable (getProp (data ev) ''failed'')"
  then show "handleEvent numText ev st =
        (None,
         st\<lparr>activeTextId := None,
            nextId := (case activeTextId st of None \<Rightarrow> Suc (nextId st) | Some x \<Rightarrow> nextId st),
            written := written st @ spanOpening st
              @ [TextDelta (openId st)
                   (''\<newline>\<newline>---\<newline>Goal completed ('' @ fieldCount numText (data ev) ''completed''
                    @ ''/'' @ fieldCount numText (data ev) ''tasks''
                    @ '' tasks, '' @ fieldCount numText (data ev) ''failed'' @ '' failed)\<newline>''),
                 TextEnd (openId st), Finish ''stop'']\<rparr>)"
    by (intro handleEvent_goal_completed) simp_all
next
  assume "getProp (data ev) key = None"
  then show "fieldCount numText (data ev) key = ''0''" by (simp add: fieldCount_def)
next
  assume "getProp (data ev) key = Some JNull"
  then show "fieldCount numText (data ev) key = ''0''" by (simp add: fieldCount_def)
next
  assume "getProp (data ev) key = Some (JNum n)"
  then show "fieldCount numText (data ev) key = numText n" by (simp add: fieldCount_def)
next
  assume "event ev \<noteq> ''goal:completed''"
  show "written (snd (handleEvent numText ev st))
          = written st @ emitted (written st) (snd (handleEvent numText ev st))"
    by (rule written_prefix[OF extends_handleEvent])
next
  assume "event ev \<noteq> ''goal:completed''"
  then show "\<not> list_ex isFinish (emitted (written st) (snd (handleEvent numText ev st)))"
    by (rule handleEvent_no_finish)
qed

theorem goal_completed_chunks_witness:
  "handleEvent showInt
     \<lparr>event = ''goal:completed'', data = JObj [(''tasks'', JNum 2), (''completed'', JNull)]\<rparr>
     \<lparr>activeTextId = None, nextId = 5, written = []\<rparr>
     = (None,
        \<lparr>activeTextId = None, nextId = 6,
           written = [TextStart 5, TextDelta 5 ''\<newline>\<newline>---\<newline>Goal completed (0/2 tasks, 0 failed)\<newline>'',
                      TextEnd 5, Finish ''stop'']\<rparr>)
   \<and> fieldCount showInt (JObj [(''tasks'', JNum 2), (''completed'', JNull)]) ''failed'' = ''0''
   \<and> fieldCount showInt (JObj [(''tasks'', JNum 2), (''completed'', JNull)]) ''completed'' = ''0''
   \<and> fieldCount showInt (JObj [(''tasks'', JNum 2), (''completed'', JNull)]) ''tasks'' = ''2''
   \<and> \<not> list_ex isFinish
         (emitted []
            (snd (handleEvent showInt \<lparr>event = ''task:failed'', data = JObj []\<rparr>
                    \<lparr>activeTextId = None, nextId = 5, written = []\<rparr>)))"
proof -
  let ?st = "\<lparr>activeTextId = None, nextId = 5, written = []\<rparr> :: int translator"
  let ?d = "JObj [(''tasks'', JNum (2::int)), (''completed'', JNull)]"
  let ?done = "\<lparr>event = ''goal:completed'', data = ?d\<rparr>"
  let ?failed = "\<lparr>event = ''task:failed'', data = JObj [] :: int json\<rparr>"
  have h: "event ?done = ''goal:completed'' \<and> data ?done \<noteq> JNull
      \<and> countable (getProp (data ?done) ''completed'')
      \<and> countable (getProp (data ?done) ''tasks'')
      \<and> countable (getProp (data ?done) ''failed'')"
    by code_simp
  have rhs: "(None :: exn option,
         ?st\<lparr>activeTextId := None,
            nextId := (case activeTextId ?st of None \<Rightarrow> Suc (nextId ?st) | Some x \<Rightarrow> nextId ?st),
            written := written ?st @ spanOpening ?st
              @ [TextDelta (openId ?st)
                   (''\<newline>\<newline>---\<newline>Goal completed ('' @ fieldCount showInt (data ?done) ''completed''
                    @ ''/'' @ fieldCount showInt (data ?done) ''tasks''
                    @ '' tasks, '' @ fieldCount showInt (data ?done) ''failed'' @ '' failed)\<newline>''),
                 TextEnd (openId ?st), Finish ''stop'']\<rparr>)
     = (None,
        \<lparr>activeTextId = None, nextId = 6,
           written = [TextStart 5, TextDelta 5 ''\<newline>\<newline>---\<newline>Goal completed (0/2 tasks, 0 failed)\<newline>'',
                      TextEnd 5, Finish ''stop'']\<rparr>)"
    by code_simp
  have k1: "getProp (data ?done) ''failed'' = None" by code_simp
  have k2: "getProp (data ?done) ''completed'' = Some JNull" by code_simp
  have k3: "getProp (data ?done) ''tasks'' = Some (JNum 2)" by code_simp
  have two: "showInt 2 = ''2''" by code_simp
  have n2: "event ?failed \<noteq> ''goal:completed''" by simp
  note t1 = goal_completed_chunks[of ?done showInt ?st "''failed''" 2]
  note t2 = goal_completed_chunks[of ?done showInt ?st "''completed''" 2]
  note t3 = goal_completed_chunks[of ?done showInt ?st "''tasks''" 2]
  note t4 = goal_completed_chunks[of ?failed showInt ?st "''tasks''" 2]
  have 1: "handleEvent showInt ?done ?st
     = (None,
        \<lparr>activeTextId = None, nextId = 6,
           written = [TextStart 5, TextDelta 5 ''\<newline>\<newline>---\<newline>Goal completed (0/2 tasks, 0 failed)\<newline>'',
                      TextEnd 5, Finish ''stop'']\<rparr>)"
    using conjunct1[OF t1, THEN mp, OF h] rhs by (rule trans)
  have 2: "fieldCount showInt ?d ''failed'' = ''0''"
    using conjunct1[OF conjunct2[OF t1], THEN mp] k1 by simp
  have 3: "fieldCount showInt ?d ''completed'' = ''0''"
    using conjunct1[OF conjunct2[OF conjunct2[OF t2]], THEN mp] k2 by simp
  have 4: "fieldCount showInt ?d ''tasks'' = ''2''"
    using conjunct1[OF conjunct2[OF conjunct2[OF conjunct2[OF t3]]], THEN mp] k3 two by simp
  have 5: "\<not> list_ex isFinish (emitted [] (snd (handleEvent showInt ?failed ?st)))"
    using conjunct2[OF conjunct2[OF conjunct2[OF conjunct2[OF t4]]], THEN mp, OF n2] by simp
  from 1 2 3 4 5 show ?thesis by (intro conjI)
qed

text \<open>
  Claim C4. When the body holds a complete frame named \<^verbatim>\<open>done\<close>, the sequence of records
  ends closed at the first such frame: the records are those of the frames before it and
  the record of the frame itself when its data parses, and nothing more, whatever
  complete frames follow in the buffered text and however the body would have ended.
\<close>

theorem done_frame_closes:
  assumes "completeFrames (concat chunks) = pre @ frame # post"
    and "frameName frame = ''done''"
    and "\<forall>g \<in> set pre. frameName g \<noteq> ''done''"
  shows "decodeBody parse (chunks, fin) =
           (fst (processFrames parse pre)
            @ (case parse (frameData frame) of
                 None \<Rightarrow> [] | Some parsed \<Rightarrow> [\<lparr>event = ''done'', data = parsed\<rparr>]),
            Closed)"
  using assms(1) processFrames_not_closed[OF assms(3), of parse] processFrames_done[OF assms(2), of parse post]
  by (simp add: decodeBody_frames processFrames_append)

theorem done_frame_closes_witness:
  "decodeBody objectParse
     ([''event: a\<newline>data: {}\<newline>\<newline>event: do'', ''ne\<newline>data: {}\<newline>\<newline>event: b\<newline>data: {}\<newline>\<newline>''],
      BodyFails (Error ''reset''))
     = ([\<lparr>event = ''a'', data = []\<rparr>, \<lparr>event = ''done'', data = []\<rparr>], Closed)"
proof -
  have a: "completeFrames
             (concat [''event: a\<newline>data: {}\<newline>\<newline>event: do'',
                      ''ne\<newline>data: {}\<newline>\<newline>event: b\<newline>data: {}\<newline>\<newline>''])
           = [''event: a\<newline>data: {}''] @ ''event: done\<newline>data: {}'' # [''event: b\<newline>data: {}'']"
    by code_simp
  have b: "frameName ''event: done\<newline>data: {}'' = ''done''" by code_simp
  have c: "\<forall>g \<in> set [''event: a\<newline>data: {}'']. frameName g \<noteq> ''done''" by code_simp
  have d: "fst (processFrames objectParse [''event: a\<newline>data: {}''])
           @ (case objectParse (frameData ''event: done\<newline>data: {}'') of
                None \<Rightarrow> [] | Some parsed \<Rightarrow> [\<lparr>event = ''done'', data = parsed\<rparr>])
           = [\<lparr>event = ''a'', data = []\<rparr>, \<lparr>event = ''done'', data = []\<rparr>]"
    by code_simp
  show ?thesis
    using done_frame_closes[OF a b c, of objectParse "BodyFails (Error ''reset'')"] d by simp
qed

text \<open>
  Claim C5, as worded, has every frame with malformed data leave the rest of the stream
  as it is. A frame named \<^verbatim>\<open>done\<close> ends the stream also when its data is malformed: the
  frame after it is decoded only when the malformed frame is absent.
\<close>

theorem malformed_done_frame_ends_stream:
  "objectParse (frameData ''event: done\<newline>data: nope'') = None
   \<and> decodeBody objectParse ([''event: done\<newline>data: nope\<newline>\<newline>event: a\<newline>data: {}\<newline>\<newline>''], BodyDone)
       = ([], Closed)
   \<and> decodeBody objectParse ([''event: a\<newline>data: {}\<newline>\<newline>''], BodyDone)
       = ([\<lparr>event = ''a'', data = []\<rparr>], Closed)"
  by code_simp

text \<open>
  Claim C5, amended. A complete frame whose data is not JSON and whose name is not
  \<^verbatim>\<open>done\<close> yields no record and does not close the stream, and the body decodes to the same
  records, with the same end, as the body without that frame.
\<close>

theorem malformed_frame_dropped:
  assumes "parse (frameData frame) = None"
    and "frameName frame \<noteq> ''done''"
    and "completeFrames (concat chunks) = pre @ frame # post"
    and "completeFrames (concat chunks') = pre @ post"
  shows "processFrames parse [frame] = ([], False)
         \<and> decodeBody parse (chunks, fin) = decodeBody parse (chunks', fin)"
  using processFrames_malformed[of parse frame, OF assms(1,2)] assms(3,4)
  by (simp add: decodeBody_frames processFrames_append)

theorem malformed_frame_dropped_witness:
  "decodeBody objectParse
     ([''event: a\<newline>data: {}\<newline>\<newline>event: agent:thinking\<newline>data: {not json}\<newline>\<newline>event: b\<newline>data: {}\<newline>\<newline>''],
      BodyDone)
     = ([\<lparr>event = ''a'', data = []\<rparr>, \<lparr>event = ''b'', data = []\<rparr>], Closed)"
proof -
  have a: "objectParse (frameData ''event: agent:thinking\<newline>data: {not json}'') = None"
    by code_simp
  have b: "frameName ''event: agent:thinking\<newline>data: {not json}'' \<noteq> ''done''" by code_simp
  have c: "completeFrames
             (concat [''event: a\<newline>data: {}\<newline>\<newline>event: agent:thinking\<newline>data: {not json}\<newline>\<newline>event: b\<newline>data: {}\<newline>\<newline>''])
           = [''event: a\<newline>data: {}''] @ ''event: agent:thinking\<newline>data: {not json}''
             # [''event: b\<newline>data: {}'']"
    by code_simp
  have d: "completeFrames (concat [''event: a\<newline>data: {}\<newline>\<newline>event: b\<newline>data: {}\<newline>\<newline>''])
           = [''event: a\<newline>data: {}''] @ [''event: b\<newline>data: {}'']"
    by code_simp
  have e: "decodeBody objectParse ([''event: a\<newline>data: {}\<newline>\<newline>event: b\<newline>data: {}\<newline>\<newline>''], BodyDone)
           = ([\<lparr>event = ''a'', data = []\<rparr>, \<lparr>event = ''b'', data = []\<rparr>], Closed)"
    by code_simp
  show ?thesis
    using malformed_frame_dropped[where parse = objectParse
        and frame = "''event: agent:thinking\<newline>data: {not json}''"
        and pre = "[''event: a\<newline>data: {}'']" and post = "[''event: b\<newline>data: {}'']"
        and fin = BodyDone, OF a b c d] e
    by simp
qed

text \<open>
  Claim C6. Whatever the body and however it is cut into reads, no record of the decoded
  sequence is named \<^verbatim>\<open>heartbeat\<close> or \<^verbatim>\<open>connected\<close>.
\<close>

theorem control_frames_filtered:
  "\<forall>r \<in> set (fst (decodeBody parse (chunks, fin))).
     event r \<noteq> ''heartbeat'' \<and> event r \<noteq> ''connected''"
  by (auto simp: decodeBody_frames dest: processFrames_names)

theorem control_frames_filtered_witness:
  "\<lparr>event = ''a'', data = []\<rparr>
     \<in> set (fst (decodeBody objectParse
                    ([''event: heartbeat\<newline>data: {}\<newline>\<newline>event: a\<newline>data: {}\<newline>\<newline>event: connected\<newline>\<newline>''],
                     BodyDone)))
   \<and> event \<lparr>event = ''a'', data = [] :: int payload\<rparr> \<noteq> ''heartbeat''
   \<and> event \<lparr>event = ''a'', data = [] :: int payload\<rparr> \<noteq> ''connected''"
proof -
  have "fst (decodeBody objectParse
                    ([''event: heartbeat\<newline>data: {}\<newline>\<newline>event: a\<newline>data: {}\<newline>\<newline>event: connected\<newline>\<newline>''],
                     BodyDone)) = [\<lparr>event = ''a'', data = []\<rparr>]"
    by code_simp
  then have mem: "\<lparr>event = ''a'', data = []\<rparr>
     \<in> set (fst (decodeBody objectParse
                    ([''event: heartbeat\<newline>data: {}\<newline>\<newline>event: a\<newline>data: {}\<newline>\<newline>event: connected\<newline>\<newline>''],
                     BodyDone)))"
    by simp
  from control_frames_filtered[of objectParse
        "[''event: heartbeat\<newline>data: {}\<newline>\<newline>event: a\<newline>data: {}\<newline>\<newline>event: connected\<newline>\<newline>'']" BodyDone,
        rule_format, OF mem] mem
  show ?thesis by (intro conjI) blast+
qed

text \<open>
  Claim C7. Through a run of \<^verbatim>\<open>agent:response\<close> events whose content, the first present of
  \<^verbatim>\<open>output\<close>, \<^verbatim>\<open>text\<close> and \<^verbatim>\<open>content\<close>, is a string that is not empty, the translator opens
  a span with the next fresh identifier only when none is open, and writes for each event
  one text delta, the content followed by two line feeds, all on that one identifier, which
  stays open; no event of the run throws. When the run is the whole stream, one text start
  comes before the deltas and one text end after them, and nothing else is written.
\<close>

theorem response_run_single_span:
  assumes "evs \<noteq> []" and "\<forall>ev \<in> set evs. textResponse ev"
  shows "translateEvents numText evs st =
           (None,
            st\<lparr>activeTextId := Some (openId st),
               nextId := (case activeTextId st of None \<Rightarrow> Suc (nextId st) | Some x \<Rightarrow> nextId st),
               written := written st @ spanOpening st
                 @ map (\<lambda>ev. TextDelta (openId st) (textOf (responseContent ev) @ ''\<newline>\<newline>'')) evs\<rparr>)
         \<and> written (snd (driveStream numText (evs, fin) st)) =
             written st @ spanOpening st
             @ map (\<lambda>ev. TextDelta (openId st) (textOf (responseContent ev) @ ''\<newline>\<newline>'')) evs
             @ [TextEnd (openId st)]"
proof -
  have d: "delta (openId st) = (\<lambda>ev. TextDelta (openId st) (textOf (responseContent ev) @ ''\<newline>\<newline>''))"
    by (rule ext) (simp add: delta_def)
  note f = translateEvents_textResponse[OF assms, of numText st, unfolded d]
  show ?thesis
    by (simp add: f snd_driveStream finishText_def writeChunk_def)
qed

theorem response_run_single_span_witness:
  "written (snd (driveStream showInt (sampleResponses, Closed)
                   \<lparr>activeTextId = None, nextId = 0, written = []\<rparr>))
     = [TextStart 0, TextDelta 0 ''Hello\<newline>\<newline>'', TextDelta 0 ''Bye\<newline>\<newline>'', TextEnd 0]"
proof -
  let ?st = "\<lparr>activeTextId = None, nextId = 0, written = []\<rparr> :: int translator"
  have a: "sampleResponses \<noteq> []" by code_simp
  have b: "\<forall>ev \<in> set sampleResponses. textResponse ev" by code_simp
  have c: "written ?st @ spanOpening ?st
             @ map (\<lambda>ev. TextDelta (openId ?st) (textOf (responseContent ev) @ ''\<newline>\<newline>''))
                 sampleResponses
             @ [TextEnd (openId ?st)]
           = [TextStart 0, TextDelta 0 ''Hello\<newline>\<newline>'', TextDelta 0 ''Bye\<newline>\<newline>'', TextEnd 0]"
    by code_simp
  have "written (snd (driveStream showInt (sampleResponses, Closed) ?st))
          = written ?st @ spanOpening ?st
             @ map (\<lambda>ev. TextDelta (openId ?st) (textOf (responseContent ev) @ ''\<newline>\<newline>''))
                 sampleResponses
             @ [TextEnd (openId ?st)]"
    using response_run_single_span[OF a b, where numText = showInt and fin = Closed and st = ?st]
    by (rule conjunct2)
  then show ?thesis by (simp only: c)
qed

text \<open>
  Claim C8, as worded, has the translation of an error event never throw, whatever the
  payload. The decoder hands on the payload \<^verbatim>\<open>null\<close> of a frame whose data is the text
  \<^verbatim>\<open>null\<close>, and on it \<open>handleEvent\<close> closes the open span and then throws at the read of
  \<^verbatim>\<open>data.error\<close>, writing no error part.
\<close>

theorem null_payload_throws_in_error_event:
  "decodeBody valueParse ([''event: agent:error\<newline>data: null\<newline>\<newline>''], BodyDone)
     = ([\<lparr>event = ''agent:error'', data = JNull\<rparr>], Closed)
   \<and> handleEvent showInt \<lparr>event = ''agent:error'', data = JNull\<rparr>
       \<lparr>activeTextId = Some 3, nextId = 4, written = [TextStart 3]\<rparr>
     = (Some (TypeErrorNull ''error''),
        \<lparr>activeTextId = None, nextId = 4, written = [TextStart 3, TextEnd 3]\<rparr>)"
  by code_simp

text \<open>
  Claim C8, amended. For every \<^verbatim>\<open>agent:error\<close> or \<^verbatim>\<open>loop:error\<close> event whose payload is not
  \<^verbatim>\<open>null\<close>, whatever JSON value it is and whatever its fields hold, the translator returns
  normally, having closed the open text span, if any, and then written one error part,
  whose text is the \<^verbatim>\<open>error\<close> field of the payload when present, else its \<^verbatim>\<open>message\<close>
  field, else \<^verbatim>\<open>Engine error\<close>.
\<close>

theorem engine_error_chunk:
  assumes "event ev = ''agent:error'' \<or> event ev = ''loop:error''"
    and "data ev \<noteq> JNull"
  shows "handleEvent numText ev st =
           (None,
            st\<lparr>activeTextId := None,
               written := written st @ spanClosing st
                 @ [ErrorChunk
                      (case firstPresent [getProp (data ev) ''error'', getProp (data ev) ''message''] of
                         None \<Rightarrow> JStr ''Engine error'' | Some v \<Rightarrow> v)]\<rparr>)"
  unfolding handleEvent_error[OF assms(1)] withDefault2
  using assms(2) by (simp add: finishText_eq writeChunk_def isNull_iff)

theorem engine_error_chunk_witness:
  "handleEvent showInt
     \<lparr>event = ''loop:error'', data = JObj [(''error'', JNull), (''message'', JStr ''boom'')]\<rparr>
     \<lparr>activeTextId = Some 3, nextId = 4, written = [TextStart 3]\<rparr>
   = (None,
      \<lparr>activeTextId = None, nextId = 4,
         written = [TextStart 3, TextEnd 3, ErrorChunk (JStr ''boom'')]\<rparr>)"
proof -
  let ?ev = "\<lparr>event = ''loop:error'',
               data = JObj [(''error'', JNull :: int json), (''message'', JStr ''boom'')]\<rparr>"
  have a: "event ?ev = ''agent:error'' \<or> event ?ev = ''loop:error''" by simp
  have b: "data ?ev \<noteq> JNull" by simp
  show ?thesis
    using engine_error_chunk[OF a b, of showInt "\<lparr>activeTextId = Some 3, nextId = 4, written = [TextStart 3]\<rparr>"]
    by (simp add: spanClosing_def)
qed

text \<open>
  Claim C9. When the base URL is not set (or set to the empty text), \<open>submitGoal\<close> and
  \<open>streamGoalEvents\<close> both fail with the configuration error, having made no request.
\<close>

theorem missing_base_url_fails_fast:
  assumes "falsy (ENGINE_URL env)"
  shows "submitGoal env fetch stringifyMessage message
           = (Inl (Error ''OPENCLAW_ENGINE_URL is not configured''), [])
         \<and> streamGoalEvents env fetch encodeURIComponent parse goalId
           = (Inl (Error ''OPENCLAW_ENGINE_URL is not configured''), [])"
  using assms by (simp add: submitGoal_def streamGoalEvents_def)

theorem missing_base_url_fails_fast_witness:
  "submitGoal \<lparr>ENGINE_URL = None, API_KEY = Some ''key''\<rparr> (\<lambda>req. FetchRejected (Error ''offline''))
     (\<lambda>m. m) ''build it''
     = (Inl (Error ''OPENCLAW_ENGINE_URL is not configured''), [])
   \<and> streamGoalEvents \<lparr>ENGINE_URL = None, API_KEY = Some ''key''\<rparr>
       (\<lambda>req. FetchRejected (Error ''offline'')) (\<lambda>g. g) objectParse ''g1''
     = (Inl (Error ''OPENCLAW_ENGINE_URL is not configured''), [])"
proof -
  have a: "falsy (ENGINE_URL \<lparr>ENGINE_URL = None, API_KEY = Some ''key''\<rparr>)" by simp
  show ?thesis
    using missing_base_url_fails_fast[OF a, of "\<lambda>req. FetchRejected (Error ''offline'')"
        "\<lambda>m. m" "''build it''" "\<lambda>g. g" objectParse "''g1''"]
    by simp
qed

text \<open>
  Claim C10, as worded, has every frame with an event line and no data line yield a
  record. A frame that consists of the line \<^verbatim>\<open>event: heartbeat\<close> yields none.
\<close>

theorem control_frame_without_data_yields_nothing:
  "jsSplit ''\<newline>'' ''event: heartbeat'' = [''event: heartbeat'']
   \<and> trim ''event: heartbeat'' \<noteq> []
   \<and> objectParse ''{}'' = Some []
   \<and> decodeBody objectParse ([''event: heartbeat\<newline>\<newline>''], BodyDone) = ([], Closed)"
  by code_simp

text \<open>
  Claim C10, amended. The name of a frame is taken from its last line that starts with
  \<^verbatim>\<open>event: \<close> (trimmed; \<^verbatim>\<open>message\<close> without such a line) and its raw data from its last line
  that starts with \<^verbatim>\<open>data: \<close> alone (\<^verbatim>\<open>{}\<close> without such a line): earlier data lines are
  dropped, not joined. A frame that is blank or named \<^verbatim>\<open>heartbeat\<close> or \<^verbatim>\<open>connected\<close> yields
  no record. Every other frame yields exactly one record, with that name and the parsed
  raw data, when the raw data parses, and no record when it does not; the stream is closed
  after the frame exactly when the frame is not blank and is named \<^verbatim>\<open>done\<close>. So a frame
  without a data line that is not blank and is named neither \<^verbatim>\<open>heartbeat\<close> nor
  \<^verbatim>\<open>connected\<close> yields one record, whose payload is what \<^verbatim>\<open>{}\<close> parses to, the empty object.
\<close>

theorem frame_record_from_last_lines:
  "frameFields frame =
     (case lastLineWith ''event: '' frame of None \<Rightarrow> ''message'' | Some line \<Rightarrow> trim (slice line 7),
      case lastLineWith ''data: '' frame of None \<Rightarrow> ''{}'' | Some line \<Rightarrow> slice line 6)
   \<and> processFrames parse [frame] =
       (if trim frame = [] \<or> frameName frame = ''heartbeat'' \<or> frameName frame = ''connected''
        then []
        else (case parse (frameData frame) of
                None \<Rightarrow> [] | Some parsed \<Rightarrow> [\<lparr>event = frameName frame, data = parsed\<rparr>]),
        trim frame \<noteq> [] \<and> frameName frame = ''done'')
   \<and> (lastLineWith ''data: '' frame = None \<longrightarrow> frameData frame = ''{}'')
   \<and> (lastLineWith ''data: '' frame = None \<and> parse ''{}'' = Some object \<and> trim frame \<noteq> []
        \<and> frameName frame \<noteq> ''heartbeat'' \<and> frameName frame \<noteq> ''connected'' \<longrightarrow>
        fst (processFrames parse [frame]) = [\<lparr>event = frameName frame, data = object\<rparr>])"
proof -
  have 1: "frameFields frame =
     (case lastLineWith ''event: '' frame of None \<Rightarrow> ''message'' | Some line \<Rightarrow> trim (slice line 7),
      case lastLineWith ''data: '' frame of None \<Rightarrow> ''{}'' | Some line \<Rightarrow> slice line 6)"
    by (rule frameFields_last)
  have 2: "processFrames parse [frame] =
       (if trim frame = [] \<or> frameName frame = ''heartbeat'' \<or> frameName frame = ''connected''
        then []
        else (case parse (frameData frame) of
                None \<Rightarrow> [] | Some parsed \<Rightarrow> [\<lparr>event = frameName frame, data = parsed\<rparr>]),
        trim frame \<noteq> [] \<and> frameName frame = ''done'')"
    by (simp add: Let_def frameName_def frameData_def split: option.splits)
  have 3: "lastLineWith ''data: '' frame = None \<Longrightarrow> frameData frame = ''{}''"
    unfolding frameData_def by (subst frameFields_last) simp
  have 4: "lastLineWith ''data: '' frame = None \<and> parse ''{}'' = Some object \<and> trim frame \<noteq> []
        \<and> frameName frame \<noteq> ''heartbeat'' \<and> frameName frame \<noteq> ''connected'' \<Longrightarrow>
        fst (processFrames parse [frame]) = [\<lparr>event = frameName frame, data = object\<rparr>]"
  proof -
    assume h: "lastLineWith ''data: '' frame = None \<and> parse ''{}'' = Some object \<and> trim frame \<noteq> []
        \<and> frameName frame \<noteq> ''heartbeat'' \<and> frameName frame \<noteq> ''connected''"
    then have d: "frameData frame = ''{}''" using 3 by blast
    show "fst (processFrames parse [frame]) = [\<lparr>event = frameName frame, data = object\<rparr>]"
      unfolding 2 using h d by simp
  qed
  from 1 2 3 4 show ?thesis by blast
qed

theorem frame_record_from_last_lines_witness:
  "frameFields ''event: a\<newline>data: nope\<newline>event:  b \<newline>data: {}'' = (''b'', ''{}'')
   \<and> processFrames objectParse [''event: a\<newline>data: nope\<newline>event:  b \<newline>data: {}'']
       = ([\<lparr>event = ''b'', data = []\<rparr>], False)
   \<and> frameData ''event: tick'' = ''{}''
   \<and> fst (processFrames objectParse [''event: tick'']) = [\<lparr>event = ''tick'', data = []\<rparr>]
   \<and> processFrames objectParse [''event: heartbeat''] = ([], False)"
proof -
  let ?f = "''event: a\<newline>data: nope\<newline>event:  b \<newline>data: {}''"
  let ?g = "''event: tick''"
  let ?h = "''event: heartbeat''"
  note tf = frame_record_from_last_lines[of ?f objectParse "[]"]
  note tg = frame_record_from_last_lines[of ?g objectParse "[]"]
  note th = frame_record_from_last_lines[of ?h objectParse "[]"]
  have a: "(case lastLineWith ''event: '' ?f of None \<Rightarrow> ''message'' | Some line \<Rightarrow> trim (slice line 7),
            case lastLineWith ''data: '' ?f of None \<Rightarrow> ''{}'' | Some line \<Rightarrow> slice line 6)
           = (''b'', ''{}'')"
    by code_simp
  have b: "(if trim ?f = [] \<or> frameName ?f = ''heartbeat'' \<or> frameName ?f = ''connected''
            then []
            else (case objectParse (frameData ?f) of
                    None \<Rightarrow> [] | Some parsed \<Rightarrow> [\<lparr>event = frameName ?f, data = parsed\<rparr>]),
            trim ?f \<noteq> [] \<and> frameName ?f = ''done'')
           = ([\<lparr>event = ''b'', data = []\<rparr>], False)"
    by code_simp
  have d: "lastLineWith ''data: '' ?g = None \<and> objectParse ''{}'' = Some [] \<and> trim ?g \<noteq> []
        \<and> frameName ?g \<noteq> ''heartbeat'' \<and> frameName ?g \<noteq> ''connected''"
    by code_simp
  have e: "frameName ?g = ''tick''" by code_simp
  have f: "(if trim ?h = [] \<or> frameName ?h = ''heartbeat'' \<or> frameName ?h = ''connected''
            then []
            else (case objectParse (frameData ?h) of
                    None \<Rightarrow> [] | Some parsed \<Rightarrow> [\<lparr>event = frameName ?h, data = parsed\<rparr>]),
            trim ?h \<noteq> [] \<and> frameName ?h = ''done'')
           = ([], False)"
    by code_simp
  have 1: "frameFields ?f = (''b'', ''{}'')"
    using conjunct1[OF tf] a by (rule trans)
  have 2: "processFrames objectParse [?f] = ([\<lparr>event = ''b'', data = []\<rparr>], False)"
    using conjunct1[OF conjunct2[OF tf]] b by (rule trans)
  have 3: "frameData ?g = ''{}''"
    using conjunct1[OF conjunct2[OF conjunct2[OF tg]], THEN mp, OF conjunct1[OF d]] .
  have 4: "fst (processFrames objectParse [?g]) = [\<lparr>event = ''tick'', data = []\<rparr>]"
    using conjunct2[OF conjunct2[OF conjunct2[OF tg]], THEN mp, OF d] unfolding e .
  have 5: "processFrames objectParse [?h] = ([], False)"
    using conjunct1[OF conjunct2[OF th]] f by (rule trans)
  from 1 2 3 4 5 show ?thesis by (intro conjI)
qed

end